theory Spec2Isabelle
  imports Main "HOL-Library.Word" "HOL-Library.AList"
begin

section \<open>The summarization playground (src/summarization-api-playground/src/main.ts)\<close>

text \<open>
  The page is an event-driven script: it runs \<open>initializeApplication\<close> once, which may attach
  listeners; user events, timers and the settling of host promises then drive it. The model
  is a state record and a step function over the events of the browser's event loop. Every
  \<open>await\<close> of the source is a suspension point: the suspended function is stored as a
  continuation and resumed when the host settles the awaited promise.
\<close>

subsection \<open>Strings\<close>

text \<open>
  A JavaScript string is a sequence of UTF-16 code units and \<open>.length\<close> counts them.
  \<open>js\<close> gives the code units of an ASCII literal of the source.
\<close>

type_synonym js_string = "16 word list"

definition js :: "string \<Rightarrow> js_string" where
  "js cs = map of_char cs"

text \<open>\<open>n.toFixed()\<close> on a length: its decimal digits, most significant first.\<close>

definition digit :: "nat \<Rightarrow> 16 word" where
  "digit d = of_nat (48 + d)"

fun toFixed :: "nat \<Rightarrow> js_string" where
  "toFixed n = (if n < 10 then [digit n] else toFixed (n div 10) @ [digit (n mod 10)])"

declare toFixed.simps [simp del]

text \<open>Reading a displayed decimal number back.\<close>

definition digit_value :: "16 word \<Rightarrow> nat" where
  "digit_value c = unat c - 48"

definition displayed_number :: "js_string \<Rightarrow> nat" where
  "displayed_number cs = foldl (\<lambda>a c. 10 * a + digit_value c) 0 cs"

subsection \<open>The host capability\<close>

text \<open>
  \<open>window.ai\<close> and \<open>window.ai.summarizer\<close> may each be undefined. The availability tier is
  \<open>'no' | 'readily' | 'after-download'\<close>. A session is an opaque object of the host, named
  here by a number; a download-progress listener is an opaque function, named the same way.
\<close>

datatype summarizer_api = SummarizerApi

record ai =
  summarizer :: "summarizer_api option"

datatype availability = No | Readily | AfterDownload

type_synonym session = nat
type_synonym progress_listener = nat

text \<open>The monitor of line 46: it registers the listener for \<open>downloadprogress\<close>.\<close>

datatype monitor = RegisterDownloadProgress progress_listener

record create_options =
  opt_type :: js_string
  opt_format :: js_string
  opt_length :: js_string
  opt_monitor :: "monitor option"

text \<open>The calls the script makes on the host, in the order it makes them.\<close>

datatype call =
    Capabilities
  | Create create_options
  | Summarize session js_string
  | Destroy session

text \<open>
  \<open>Error\<close> is the script's own \<open>new Error(message)\<close>; \<open>HostError\<close> is an exception of
  the host, with which it may reject a promise.
\<close>

datatype error = Error js_string | HostError js_string

datatype host_value = Avail availability | Sess session | Summary js_string

datatype settlement = Fulfil host_value | Reject error

subsection \<open>createSummarizationSession (lines 34-53)\<close>

text \<open>
  The function awaits twice: \<open>capabilities()\<close> at line 39 and \<open>create(...)\<close> at line 51.
  It touches nothing but the host, so it is modelled on its own: where it is suspended, the
  host calls it makes when it starts or is resumed, and how it ends.
\<close>

datatype css_point =
    AtCapabilities js_string js_string js_string "progress_listener option"
  | AtCreate

datatype css_result = Suspended css_point | Returned session | Thrown error

definition createSummarizationSession ::
  "js_string \<Rightarrow> js_string \<Rightarrow> js_string \<Rightarrow> progress_listener option \<Rightarrow> call list \<times> css_point" where
  "createSummarizationSession type format len downloadProgressListener =
     ([Capabilities], AtCapabilities type format len downloadProgressListener)"

text \<open>
  A settlement whose value is not of the awaited promise's type (excluded by the types of
  \<open>AISummarizerFactory\<close>) gives \<open>None\<close>.
\<close>

fun createSummarizationSession_resume ::
  "css_point \<Rightarrow> settlement \<Rightarrow> (call list \<times> css_result) option" where
  "createSummarizationSession_resume (AtCapabilities type format len downloadProgressListener)
       (Fulfil (Avail canSummarize)) =
     (if canSummarize = No
      then Some ([], Thrown (Error (js ''AI Summarization is not supported'')))
      else
        let monitor = (case downloadProgressListener of
                         None \<Rightarrow> None
                       | Some l \<Rightarrow> Some (RegisterDownloadProgress l))
        in Some ([Create \<lparr>opt_type = type, opt_format = format, opt_length = len,
                          opt_monitor = monitor\<rparr>],
                 Suspended AtCreate))"
| "createSummarizationSession_resume AtCreate (Fulfil (Sess summarizationSession)) =
     Some ([], Returned summarizationSession)"
| "createSummarizationSession_resume p (Reject e) = Some ([], Thrown e)"
| "createSummarizationSession_resume p (Fulfil v) = None"

subsection \<open>The page\<close>

datatype element = TypeSelect | FormatSelect | LengthSelect | InputArea

datatype handler = ScheduleSummarization | InputListener

text \<open>
  The suspended async functions of the page: \<open>initializeApplication\<close> at line 67, and the
  timer callback at line 80 (inside \<open>createSummarizationSession\<close>) or at line 85.
\<close>

datatype continuation =
    InitAwaitCapabilities
  | CallbackAwaitSession css_point
  | CallbackAwaitSummarize session

record state =
  \<comment> \<open>the document\<close>
  input_value :: js_string
  type_value :: js_string
  format_value :: js_string
  length_value :: js_string
  character_count :: js_string
  character_count_classes :: "js_string list"
  character_count_exceed_classes :: "js_string list"
  unsupported_display :: js_string
  unavailable_display :: js_string
  output_text :: js_string
  \<comment> \<open>the host object and the script's variables\<close>
  window_ai :: "ai option"
  listeners :: "(element \<times> handler) list"
  timeout :: "nat option"
  \<comment> \<open>the event loop: timers as (handle, deadline), suspended functions by number\<close>
  clock :: nat
  timers :: "(nat \<times> nat) list"
  next_timer :: nat
  tasks :: "(nat \<times> continuation) list"
  next_task :: nat
  \<comment> \<open>what has been observed: host calls, timers fired, unhandled rejections\<close>
  calls :: "call list"
  fired :: "nat list"
  unhandled :: "error list"

definition MAX_MODEL_CHARS :: nat where
  "MAX_MODEL_CHARS = 4000"

text \<open>\<open>classList.add\<close> and \<open>classList.remove\<close> on an ordered set of tokens.\<close>

definition classList_add :: "js_string \<Rightarrow> js_string list \<Rightarrow> js_string list" where
  "classList_add c cs = (if c \<in> set cs then cs else cs @ [c])"

definition classList_remove :: "js_string \<Rightarrow> js_string list \<Rightarrow> js_string list" where
  "classList_remove c cs = filter (\<lambda>x. x \<noteq> c) cs"

definition host_call :: "call list \<Rightarrow> state \<Rightarrow> state" where
  "host_call cs s = s\<lparr>calls := calls s @ cs\<rparr>"

text \<open>Starting an async function that suspends, suspending it again, and ending it.\<close>

definition spawn :: "continuation \<Rightarrow> state \<Rightarrow> state" where
  "spawn k s = s\<lparr>tasks := AList.update (next_task s) k (tasks s), next_task := next_task s + 1\<rparr>"

definition await :: "nat \<Rightarrow> continuation \<Rightarrow> state \<Rightarrow> state" where
  "await tid k s = s\<lparr>tasks := AList.update tid k (tasks s)\<rparr>"

definition finish :: "nat \<Rightarrow> state \<Rightarrow> state" where
  "finish tid s = s\<lparr>tasks := AList.delete tid (tasks s)\<rparr>"

text \<open>No caller handles the promise of either async function: a throw is an unhandled rejection.\<close>

definition reject :: "nat \<Rightarrow> error \<Rightarrow> state \<Rightarrow> state" where
  "reject tid e s = finish tid (s\<lparr>unhandled := unhandled s @ [e]\<rparr>)"

subsection \<open>Timers\<close>

definition clearTimeout :: "nat option \<Rightarrow> state \<Rightarrow> state" where
  "clearTimeout h s =
     (case h of None \<Rightarrow> s
      | Some i \<Rightarrow> s\<lparr>timers := filter (\<lambda>t. fst t \<noteq> i) (timers s)\<rparr>)"

text \<open>\<open>timeout = setTimeout(callback, 1000)\<close>: every timer of the page has the same callback.\<close>

definition setTimeout :: "nat \<Rightarrow> state \<Rightarrow> state" where
  "setTimeout delay s =
     s\<lparr>timers := timers s @ [(next_timer s, clock s + delay)],
       timeout := Some (next_timer s),
       next_timer := next_timer s + 1\<rparr>"

definition scheduleSummarization :: "state \<Rightarrow> state" where
  "scheduleSummarization s = setTimeout 1000 (clearTimeout (timeout s) s)"

text \<open>
  The callback of lines 78-88 up to its first suspension: the three option values are read
  when it starts, the input text only after the session has been created (line 85).
\<close>

definition timer_callback :: "state \<Rightarrow> state" where
  "timer_callback s =
     (let s1 = s\<lparr>output_text := js ''Generating summary...''\<rparr>;
          (cs, p) = createSummarizationSession (type_value s1) (format_value s1) (length_value s1) None
      in spawn (CallbackAwaitSession p) (host_call cs s1))"

definition fire :: "nat \<Rightarrow> state \<Rightarrow> state" where
  "fire i s = timer_callback (s\<lparr>fired := fired s @ [i]\<rparr>)"

text \<open>
  Time passes: the timers that are due fire, in the order they were set (the order of their
  deadlines, every delay being the same).
\<close>

fun fire_all :: "(nat \<times> nat) list \<Rightarrow> state \<Rightarrow> state" where
  "fire_all [] s = s"
| "fire_all (t # ts) s = fire_all ts (fire (fst t) s)"

definition elapse :: "nat \<Rightarrow> state \<Rightarrow> state" where
  "elapse d s =
     (let now = clock s + d;
          due = filter (\<lambda>t. snd t \<le> now) (timers s);
          s1 = s\<lparr>clock := now, timers := filter (\<lambda>t. \<not> snd t \<le> now) (timers s)\<rparr>
      in fire_all due s1)"

subsection \<open>The listeners (lines 91-105)\<close>

definition input_listener :: "state \<Rightarrow> state" where
  "input_listener s =
     (let s1 = s\<lparr>character_count := toFixed (length (input_value s))\<rparr>;
          s2 = (if length (input_value s1) > MAX_MODEL_CHARS
                then s1\<lparr>character_count_classes :=
                          classList_add (js ''tokens-exceeded'') (character_count_classes s1),
                        character_count_exceed_classes :=
                          classList_remove (js ''hidden'') (character_count_exceed_classes s1)\<rparr>
                else s1\<lparr>character_count_classes :=
                          classList_remove (js ''tokens-exceeded'') (character_count_classes s1),
                        character_count_exceed_classes :=
                          classList_add (js ''hidden'') (character_count_exceed_classes s1)\<rparr>)
      in scheduleSummarization s2)"

fun run_handler :: "handler \<Rightarrow> state \<Rightarrow> state" where
  "run_handler ScheduleSummarization s = scheduleSummarization s"
| "run_handler InputListener s = input_listener s"

definition addEventListener :: "element \<Rightarrow> handler \<Rightarrow> state \<Rightarrow> state" where
  "addEventListener el h s = s\<lparr>listeners := listeners s @ [(el, h)]\<rparr>"

definition dispatch :: "element \<Rightarrow> state \<Rightarrow> state" where
  "dispatch el s =
     foldl (\<lambda>s' h. run_handler h s') s (map snd (filter (\<lambda>l. fst l = el) (listeners s)))"

subsection \<open>initializeApplication (lines 60-106)\<close>

definition summarizationApiAvailable :: "state \<Rightarrow> bool" where
  "summarizationApiAvailable s =
     (case window_ai s of None \<Rightarrow> False | Some a \<Rightarrow> summarizer a \<noteq> None)"

definition initializeApplication :: "state \<Rightarrow> state" where
  "initializeApplication s =
     (if \<not> summarizationApiAvailable s
      then s\<lparr>unavailable_display := js ''block''\<rparr>
      else spawn InitAwaitCapabilities (host_call [Capabilities] s))"

definition initializeApplication_resume :: "availability \<Rightarrow> state \<Rightarrow> state" where
  "initializeApplication_resume canSummarize s =
     (if canSummarize = No
      then s\<lparr>unsupported_display := js ''block''\<rparr>
      else
        addEventListener InputArea InputListener
          (addEventListener LengthSelect ScheduleSummarization
            (addEventListener FormatSelect ScheduleSummarization
              (addEventListener TypeSelect ScheduleSummarization
                (s\<lparr>timeout := None\<rparr>)))))"

subsection \<open>Resuming a suspended function\<close>

fun resume :: "nat \<Rightarrow> continuation \<Rightarrow> settlement \<Rightarrow> state \<Rightarrow> state" where
  "resume tid InitAwaitCapabilities (Fulfil (Avail canSummarize)) s =
     initializeApplication_resume canSummarize (finish tid s)"
| "resume tid InitAwaitCapabilities (Fulfil v) s = s"
| "resume tid InitAwaitCapabilities (Reject e) s = reject tid e s"
| "resume tid (CallbackAwaitSession p) x s =
     (case createSummarizationSession_resume p x of
        None \<Rightarrow> s
      | Some (cs, Suspended p') \<Rightarrow> await tid (CallbackAwaitSession p') (host_call cs s)
      | Some (cs, Thrown e) \<Rightarrow> reject tid e (host_call cs s)
      | Some (cs, Returned session) \<Rightarrow>
          await tid (CallbackAwaitSummarize session)
            (host_call (cs @ [Summarize session (input_value s)]) s))"
| "resume tid (CallbackAwaitSummarize session) (Fulfil (Summary summary)) s =
     (finish tid (host_call [Destroy session] s))\<lparr>output_text := summary\<rparr>"
| "resume tid (CallbackAwaitSummarize session) (Fulfil v) s = s"
| "resume tid (CallbackAwaitSummarize session) (Reject e) s = reject tid e s"

definition settle :: "nat \<Rightarrow> settlement \<Rightarrow> state \<Rightarrow> state" where
  "settle tid x s = (case map_of (tasks s) tid of None \<Rightarrow> s | Some k \<Rightarrow> resume tid k x s)"

subsection \<open>The event loop\<close>

text \<open>
  A user event changes the control's value and dispatches \<open>input\<close> (text area) or
  \<open>change\<close> (selectors) to the listeners attached to it.
\<close>

datatype user_event =
    Input js_string
  | ChangeType js_string
  | ChangeFormat js_string
  | ChangeLength js_string

datatype event =
    User user_event
  | Elapse nat
  | Settle nat settlement

fun user :: "user_event \<Rightarrow> state \<Rightarrow> state" where
  "user (Input text) s = dispatch InputArea (s\<lparr>input_value := text\<rparr>)"
| "user (ChangeType v) s = dispatch TypeSelect (s\<lparr>type_value := v\<rparr>)"
| "user (ChangeFormat v) s = dispatch FormatSelect (s\<lparr>format_value := v\<rparr>)"
| "user (ChangeLength v) s = dispatch LengthSelect (s\<lparr>length_value := v\<rparr>)"

fun step :: "event \<Rightarrow> state \<Rightarrow> state" where
  "step (User u) s = user u s"
| "step (Elapse d) s = elapse d s"
| "step (Settle tid x) s = settle tid x s"

fun run :: "event list \<Rightarrow> state \<Rightarrow> state" where
  "run [] s = s"
| "run (e # es) s = run es (step e s)"

text \<open>
  The page as loaded with document and host \<open>d\<close>, before line 108 runs: no listener, no
  timer, nothing suspended, nothing observed. Timer handles are positive.
\<close>

definition loaded :: "state \<Rightarrow> state" where
  "loaded d =
     d\<lparr>listeners := [], timeout := None,
       clock := 0, timers := [], next_timer := 1, tasks := [], next_task := 0,
       calls := [], fired := [], unhandled := []\<rparr>"

definition page :: "state \<Rightarrow> state" where
  "page d = initializeApplication (loaded d)"

text \<open>The listeners that lines 91-105 attach, in that order.\<close>

definition attached :: "(element \<times> handler) list" where
  "attached =
     [(TypeSelect, ScheduleSummarization), (FormatSelect, ScheduleSummarization),
      (LengthSelect, ScheduleSummarization), (InputArea, InputListener)]"

text \<open>
  A sequence of qualifying events, each given with the time since the event before it.
\<close>

fun burst :: "(nat \<times> user_event) list \<Rightarrow> event list" where
  "burst [] = []"
| "burst ((d, u) # rest) = Elapse d # User u # burst rest"

subsection \<open>Invariants of the event loop\<close>

text \<open>The only pending timer, if any, is the one whose handle \<open>timeout\<close> holds.\<close>

definition timer_inv :: "state \<Rightarrow> bool" where
  "timer_inv s = (timers s = [] \<or> map (Some \<circ> fst) (timers s) = [timeout s])"

text \<open>While \<open>initializeApplication\<close> is suspended at line 67.\<close>

definition initializing :: "state \<Rightarrow> bool" where
  "initializing s = (InitAwaitCapabilities \<in> snd ` set (tasks s))"

definition page_inv :: "state \<Rightarrow> bool" where
  "page_inv s =
     (if initializing s then length (tasks s) = 1 \<and> timers s = [] \<and> listeners s = []
      else timer_inv s)"

text \<open>Armed: the listeners are attached and the stored timer is pending, a full delay away.\<close>

definition armed :: "state \<Rightarrow> bool" where
  "armed s =
     (listeners s = attached \<and>
      (case timeout s of None \<Rightarrow> False | Some i \<Rightarrow> timers s = [(i, clock s + 1000)]))"

text \<open>The summarizations in flight: the timer callbacks that are suspended.\<close>

definition in_flight :: "state \<Rightarrow> nat" where
  "in_flight s = length (filter (\<lambda>t. snd t \<noteq> InitAwaitCapabilities) (tasks s))"

text \<open>The events that come from the host, as opposed to the user and the clock.\<close>

fun host_event :: "event \<Rightarrow> bool" where
  "host_event (Settle tid x) = True"
| "host_event e = False"

text \<open>
  A run in which a timer fires only when no earlier summarization is still in flight.
\<close>

fun fires_only_when_idle :: "event list \<Rightarrow> state \<Rightarrow> bool" where
  "fires_only_when_idle [] s = True"
| "fires_only_when_idle (e # es) s =
     ((fired (step e s) = fired s \<or> in_flight s = 0) \<and> fires_only_when_idle es (step e s))"

text \<open>
  The sessions that suspended callbacks hold: each was given by \<open>create\<close> to a callback
  that now awaits \<open>summarize\<close> on it (line 85).
\<close>

definition sessions_held :: "state \<Rightarrow> session list" where
  "sessions_held s =
     concat (map (\<lambda>t. case snd t of CallbackAwaitSummarize x \<Rightarrow> [x] | _ \<Rightarrow> []) (tasks s))"

text \<open>
  The sessions created and not yet destroyed, read off the call log. The callback calls
  \<open>summarize\<close> on a session in the very step in which \<open>create\<close> gives it (lines 80-85),
  so a session is outstanding from its \<open>summarize\<close> call until its \<open>destroy\<close> call, and
  for ever when line 86 is never reached.
\<close>

fun outstanding_from :: "session list \<Rightarrow> call list \<Rightarrow> session list" where
  "outstanding_from live [] = live"
| "outstanding_from live (Summarize x text # cs) = outstanding_from (live @ [x]) cs"
| "outstanding_from live (Destroy x # cs) = outstanding_from (remove1 x live) cs"
| "outstanding_from live (c # cs) = outstanding_from live cs"

definition outstanding :: "call list \<Rightarrow> session list" where
  "outstanding cs = outstanding_from [] cs"

text \<open>
  Reading the call log with the sessions outstanding so far: whenever \<open>create\<close> is called,
  and whenever the session it gives comes into use, no session is outstanding.
\<close>

fun released_before_create :: "session list \<Rightarrow> call list \<Rightarrow> bool" where
  "released_before_create live [] = True"
| "released_before_create live (Create opts # cs) =
     (live = [] \<and> released_before_create live cs)"
| "released_before_create live (Summarize x text # cs) =
     (live = [] \<and> released_before_create (live @ [x]) cs)"
| "released_before_create live (Destroy x # cs) =
     released_before_create (remove1 x live) cs"
| "released_before_create live (Capabilities # cs) = released_before_create live cs"

text \<open>The host rejects a \<open>summarize\<close> call: the callback ends at line 85.\<close>

fun summarize_rejected :: "event \<Rightarrow> state \<Rightarrow> bool" where
  "summarize_rejected (Settle tid (Reject e)) s =
     (case map_of (tasks s) tid of
        Some (CallbackAwaitSummarize x) \<Rightarrow> True
      | _ \<Rightarrow> False)"
| "summarize_rejected e s = False"

text \<open>A run in which the host rejects no \<open>summarize\<close> call.\<close>

fun summaries_not_rejected :: "event list \<Rightarrow> state \<Rightarrow> bool" where
  "summaries_not_rejected [] s = True"
| "summaries_not_rejected (e # es) s =
     (\<not> summarize_rejected e s \<and> summaries_not_rejected es (step e s))"

text \<open>
  At most one function is suspended, the sessions outstanding by the log are the ones held,
  and so far every session was released before the next was created.
\<close>

definition sessions_inv :: "state \<Rightarrow> bool" where
  "sessions_inv s =
     (length (tasks s) \<le> 1 \<and> outstanding (calls s) = sessions_held s \<and>
      released_before_create [] (calls s))"

subsection \<open>A document for the examples\<close>

text \<open>
  A host with the summarizer, an empty text area, and the selectors on
  \<open>key-points\<close>, \<open>plain-text\<close> and \<open>short\<close>.
\<close>

definition demo :: state where
  "demo =
     \<lparr>input_value = [], type_value = js ''key-points'', format_value = js ''plain-text'',
      length_value = js ''short'',
      character_count = js ''0'',
      character_count_classes = [],
      character_count_exceed_classes = [js ''hidden''],
      unsupported_display = js ''none'', unavailable_display = js ''none'',
      output_text = [],
      window_ai = Some \<lparr>summarizer = Some SummarizerApi\<rparr>, listeners = [], timeout = None,
      clock = 0, timers = [], next_timer = 1, tasks = [], next_task = 0,
      calls = [], fired = [], unhandled = []\<rparr>"

text \<open>The same page once the host has reported \<open>readily\<close> to \<open>initializeApplication\<close>.\<close>

definition demo_ready :: state where
  "demo_ready = step (Settle 0 (Fulfil (Avail Readily))) (page demo)"

section \<open>Properties\<close>

subsection \<open>The displayed number\<close>


lemma digit_value_digit: "d < 10 \<Longrightarrow> digit_value (digit d) = d"
  by (simp add: digit_value_def digit_def unat_word_ariths unat_of_nat)

lemma displayed_number_append:
  "displayed_number (cs @ [c]) = 10 * displayed_number cs + digit_value c"
  by (simp add: displayed_number_def)

lemma displayed_number_toFixed: "displayed_number (toFixed n) = n"
proof (induction n rule: toFixed.induct)
  case (1 n)
  show ?case
  proof (cases "n < 10")
    case True
    then show ?thesis
      by (simp add: toFixed.simps [of n] displayed_number_def digit_value_digit)
  next
    case False
    with 1 show ?thesis
      by (simp add: toFixed.simps [of n] displayed_number_append digit_value_digit)
  qed
qed

lemma classList_add_mem: "c \<in> set (classList_add c cs)"
  by (simp add: classList_add_def)

lemma classList_remove_mem: "c \<notin> set (classList_remove c cs)"
  by (simp add: classList_remove_def)

lemma scheduleSummarization_eq:
  "scheduleSummarization s =
     s\<lparr>timers := filter (\<lambda>t. Some (fst t) \<noteq> timeout s) (timers s) @ [(next_timer s, clock s + 1000)],
       timeout := Some (next_timer s),
       next_timer := next_timer s + 1\<rparr>"
  by (cases "timeout s")
     (auto simp: scheduleSummarization_def setTimeout_def clearTimeout_def intro: filter_cong)

lemma fire_eq:
  "fire i s =
     s\<lparr>fired := fired s @ [i],
       output_text := js ''Generating summary...'',
       calls := calls s @ [Capabilities],
       tasks := AList.update (next_task s)
                  (CallbackAwaitSession
                     (AtCapabilities (type_value s) (format_value s) (length_value s) None))
                  (tasks s),
       next_task := next_task s + 1\<rparr>"
  by (simp add: fire_def timer_callback_def createSummarizationSession_def spawn_def host_call_def)

lemma input_listener_eq:
  "input_listener s =
     scheduleSummarization
       (s\<lparr>character_count := toFixed (length (input_value s)),
          character_count_classes :=
            (if length (input_value s) > 4000
             then classList_add (js ''tokens-exceeded'') (character_count_classes s)
             else classList_remove (js ''tokens-exceeded'') (character_count_classes s)),
          character_count_exceed_classes :=
            (if length (input_value s) > 4000
             then classList_remove (js ''hidden'') (character_count_exceed_classes s)
             else classList_add (js ''hidden'') (character_count_exceed_classes s))\<rparr>)"
  by (simp add: input_listener_def MAX_MODEL_CHARS_def Let_def)

lemma timer_inv_schedule: "timer_inv s \<Longrightarrow> timer_inv (scheduleSummarization s)"
  by (auto simp: timer_inv_def scheduleSummarization_eq)

lemma timers_schedule:
  "timer_inv s \<Longrightarrow> timers (scheduleSummarization s) = [(next_timer s, clock s + 1000)]"
  by (auto simp: timer_inv_def scheduleSummarization_eq)


subsection \<open>Timers firing\<close>

lemma elapse_eq:
  "elapse d s =
     fire_all (filter (\<lambda>t. snd t \<le> clock s + d) (timers s))
       (s\<lparr>clock := clock s + d, timers := filter (\<lambda>t. \<not> snd t \<le> clock s + d) (timers s)\<rparr>)"
  by (simp add: elapse_def Let_def)

lemma fire_all_frame:
  "timers (fire_all ts s) = timers s"
  "timeout (fire_all ts s) = timeout s"
  "listeners (fire_all ts s) = listeners s"
  "clock (fire_all ts s) = clock s"
  "next_timer (fire_all ts s) = next_timer s"
  "unhandled (fire_all ts s) = unhandled s"
  "window_ai (fire_all ts s) = window_ai s"
  "input_value (fire_all ts s) = input_value s"
  "type_value (fire_all ts s) = type_value s"
  "format_value (fire_all ts s) = format_value s"
  "length_value (fire_all ts s) = length_value s"
  "unsupported_display (fire_all ts s) = unsupported_display s"
  "unavailable_display (fire_all ts s) = unavailable_display s"
  "character_count (fire_all ts s) = character_count s"
  "character_count_classes (fire_all ts s) = character_count_classes s"
  "character_count_exceed_classes (fire_all ts s) = character_count_exceed_classes s"
  by (induction ts arbitrary: s; simp add: fire_eq)+

lemma fire_all_fired: "fired (fire_all ts s) = fired s @ map fst ts"
  by (induction ts arbitrary: s) (simp_all add: fire_eq)

lemma fire_all_calls: "calls (fire_all ts s) = calls s @ replicate (length ts) Capabilities"
  by (induction ts arbitrary: s) (simp_all add: fire_eq replicate_append_same)

lemma elapse_none_due:
  "\<forall>t \<in> set (timers s). clock s + d < snd t \<Longrightarrow> elapse d s = s\<lparr>clock := clock s + d\<rparr>"
proof -
  assume a: "\<forall>t \<in> set (timers s). clock s + d < snd t"
  then have "filter (\<lambda>t. snd t \<le> clock s + d) (timers s) = []"
    by (auto simp: filter_empty_conv)
  moreover from a have "filter (\<lambda>t. \<not> snd t \<le> clock s + d) (timers s) = timers s"
    by (auto simp: filter_id_conv)
  ultimately show ?thesis by (simp add: elapse_eq)
qed

lemma elapse_one_due:
  "timers s = [(i, dl)] \<Longrightarrow> dl \<le> clock s + d \<Longrightarrow>
   elapse d s = fire i (s\<lparr>clock := clock s + d, timers := []\<rparr>)"
  by (simp add: elapse_eq)

subsection \<open>Dispatch\<close>

lemma dispatch_no_listeners: "listeners s = [] \<Longrightarrow> dispatch el s = s"
  by (simp add: dispatch_def)

lemma dispatch_attached:
  "listeners s = attached \<Longrightarrow> dispatch InputArea s = input_listener s"
  "listeners s = attached \<Longrightarrow> dispatch TypeSelect s = scheduleSummarization s"
  "listeners s = attached \<Longrightarrow> dispatch FormatSelect s = scheduleSummarization s"
  "listeners s = attached \<Longrightarrow> dispatch LengthSelect s = scheduleSummarization s"
  by (simp_all add: dispatch_def attached_def)

lemma run_append: "run (es @ fs) s = run fs (run es s)"
  by (induction es arbitrary: s) simp_all


subsection \<open>Settling\<close>

lemma settle_unknown: "map_of (tasks s) tid = None \<Longrightarrow> settle tid x s = s"
  by (simp add: settle_def)

lemma settle_capabilities_ok:
  "map_of (tasks s) tid = Some (CallbackAwaitSession (AtCapabilities t f l None)) \<Longrightarrow> a \<noteq> No \<Longrightarrow>
   settle tid (Fulfil (Avail a)) s =
     s\<lparr>calls := calls s @ [Create \<lparr>opt_type = t, opt_format = f, opt_length = l, opt_monitor = None\<rparr>],
       tasks := AList.update tid (CallbackAwaitSession AtCreate) (tasks s)\<rparr>"
  by (simp add: settle_def await_def host_call_def)

lemma settle_capabilities_no:
  "map_of (tasks s) tid = Some (CallbackAwaitSession (AtCapabilities t f l dl)) \<Longrightarrow>
   settle tid (Fulfil (Avail No)) s =
     s\<lparr>unhandled := unhandled s @ [Error (js ''AI Summarization is not supported'')],
       tasks := AList.delete tid (tasks s)\<rparr>"
  by (simp add: settle_def reject_def finish_def host_call_def)

lemma settle_create:
  "map_of (tasks s) tid = Some (CallbackAwaitSession AtCreate) \<Longrightarrow>
   settle tid (Fulfil (Sess x)) s =
     s\<lparr>calls := calls s @ [Summarize x (input_value s)],
       tasks := AList.update tid (CallbackAwaitSummarize x) (tasks s)\<rparr>"
  by (simp add: settle_def await_def host_call_def)

lemma settle_summarize:
  "map_of (tasks s) tid = Some (CallbackAwaitSummarize x) \<Longrightarrow>
   settle tid (Fulfil (Summary r)) s =
     s\<lparr>calls := calls s @ [Destroy x], tasks := AList.delete tid (tasks s), output_text := r\<rparr>"
  by (simp add: settle_def finish_def host_call_def)

lemma elapse_no_timers: "timers s = [] \<Longrightarrow> elapse d s = s\<lparr>clock := clock s + d\<rparr>"
  by (simp add: elapse_eq)



lemma callback_cycle:
  assumes idle: "timers s = []" and ok: "a \<noteq> No"
  shows "run [Elapse d1, Settle (next_task s) (Fulfil (Avail a)),
              Elapse d2, Settle (next_task s) (Fulfil (Sess x)),
              Elapse d3, Settle (next_task s) (Fulfil (Summary r))] (fire i s) =
         s\<lparr>fired := fired s @ [i],
           output_text := r,
           calls := calls s @
             [Capabilities,
              Create \<lparr>opt_type = type_value s, opt_format = format_value s,
                      opt_length = length_value s, opt_monitor = None\<rparr>,
              Summarize x (input_value s),
              Destroy x],
           tasks := AList.delete (next_task s) (tasks s),
           next_task := next_task s + 1,
           clock := clock s + d1 + d2 + d3\<rparr>"
  using idle ok
  by (simp add: fire_eq elapse_no_timers settle_capabilities_ok settle_create settle_summarize
      update_conv' delete_update_same)


subsection \<open>A burst of qualifying events\<close>

text \<open>Armed: one timer pending, the stored one, not yet due.\<close>

lemma user_attached:
  assumes "listeners s = attached" "timer_inv s"
  shows "timers (user u s) = [(next_timer s, clock s + 1000)]"
    and "timeout (user u s) = Some (next_timer s)"
    and "listeners (user u s) = attached"
    and "clock (user u s) = clock s"
    and "fired (user u s) = fired s"
    and "calls (user u s) = calls s"
    and "tasks (user u s) = tasks s"
    and "next_task (user u s) = next_task s"
    and "unhandled (user u s) = unhandled s"
    and "output_text (user u s) = output_text s"
  using assms
  by (cases u; simp add: dispatch_attached input_listener_eq scheduleSummarization_eq timer_inv_def; auto)+


lemma armedD:
  "armed s \<Longrightarrow> \<exists>i. timers s = [(i, clock s + 1000)] \<and> timeout s = Some i \<and> listeners s = attached"
  by (auto simp: armed_def split: option.splits)

lemma armed_user:
  assumes "listeners s = attached" "timer_inv s"
  shows "armed (user u s)"
  using user_attached(1-4) [OF assms, of u] by (simp add: armed_def)

lemma armed_gap_user:
  assumes a: "armed s" and d: "d < 1000"
  shows "armed (user u (elapse d s))"
    and "fired (user u (elapse d s)) = fired s"
    and "calls (user u (elapse d s)) = calls s"
    and "tasks (user u (elapse d s)) = tasks s"
    and "next_task (user u (elapse d s)) = next_task s"
    and "unhandled (user u (elapse d s)) = unhandled s"
    and "output_text (user u (elapse d s)) = output_text s"
proof -
  from armedD [OF a] obtain i where
    i: "timers s = [(i, clock s + 1000)]" "timeout s = Some i" "listeners s = attached"
    by blast
  from i(1) d have e: "elapse d s = s\<lparr>clock := clock s + d\<rparr>"
    by (intro elapse_none_due) simp
  have l: "listeners (elapse d s) = attached" and t: "timer_inv (elapse d s)"
    using i by (simp_all add: e timer_inv_def)
  show "armed (user u (elapse d s))" by (rule armed_user [OF l t])
  show "fired (user u (elapse d s)) = fired s"
    "calls (user u (elapse d s)) = calls s"
    "tasks (user u (elapse d s)) = tasks s"
    "next_task (user u (elapse d s)) = next_task s"
    "unhandled (user u (elapse d s)) = unhandled s"
    "output_text (user u (elapse d s)) = output_text s"
    using user_attached [OF l t, of u] by (simp_all add: e)
qed

lemma burst_armed:
  assumes "armed s" "\<forall>g \<in> set evs. fst g < 1000"
  shows "armed (run (burst evs) s) \<and>
         fired (run (burst evs) s) = fired s \<and>
         calls (run (burst evs) s) = calls s \<and>
         tasks (run (burst evs) s) = tasks s \<and>
         next_task (run (burst evs) s) = next_task s \<and>
         unhandled (run (burst evs) s) = unhandled s \<and>
         output_text (run (burst evs) s) = output_text s"
  using assms
proof (induction evs arbitrary: s)
  case Nil
  then show ?case by simp
next
  case (Cons g evs)
  obtain d u where g: "g = (d, u)" by (cases g)
  from Cons.prems g have d: "d < 1000" and rest: "\<forall>g \<in> set evs. fst g < 1000"
    by simp_all
  note step = armed_gap_user [OF Cons.prems(1) d, of u]
  from Cons.IH [OF step(1) rest] step(2-) show ?case
    by (simp add: g)
qed

lemma burst_idle:
  assumes l: "listeners s = attached" and idle: "timers s = []"
    and ne: "evs \<noteq> []" and gaps: "\<forall>g \<in> set (tl evs). fst g < 1000"
  shows "armed (run (burst evs) s) \<and>
         fired (run (burst evs) s) = fired s \<and>
         calls (run (burst evs) s) = calls s \<and>
         tasks (run (burst evs) s) = tasks s \<and>
         next_task (run (burst evs) s) = next_task s \<and>
         unhandled (run (burst evs) s) = unhandled s \<and>
         output_text (run (burst evs) s) = output_text s"
proof -
  from ne obtain d u rest where evs: "evs = (d, u) # rest"
    by (cases evs) auto
  have e: "elapse d s = s\<lparr>clock := clock s + d\<rparr>"
    using idle by (rule elapse_no_timers)
  have l': "listeners (elapse d s) = attached" and t: "timer_inv (elapse d s)"
    using l idle by (simp_all add: e timer_inv_def)
  note first = user_attached [OF l' t, of u]
  have a: "armed (user u (elapse d s))" by (rule armed_user [OF l' t])
  from gaps evs have rest: "\<forall>g \<in> set rest. fst g < 1000" by simp
  from burst_armed [OF a rest] first(5-) show ?thesis
    by (simp add: evs e)
qed

lemma armed_fires:
  assumes a: "armed s" and q: "1000 \<le> q"
  shows "\<exists>i. timeout s = Some i \<and> elapse q s = fire i (s\<lparr>clock := clock s + q, timers := []\<rparr>)"
proof -
  from armedD [OF a] obtain i where
    i: "timers s = [(i, clock s + 1000)]" "timeout s = Some i"
    by blast
  from q have "elapse q s = fire i (s\<lparr>clock := clock s + q, timers := []\<rparr>)"
    using elapse_one_due [OF i(1), of q] by linarith
  with i(2) show ?thesis by blast
qed


subsection \<open>Frames of the handlers, for any listeners\<close>

lemma run_handler_frame:
  "tasks (run_handler h s) = tasks s"
  "calls (run_handler h s) = calls s"
  "fired (run_handler h s) = fired s"
  "listeners (run_handler h s) = listeners s"
  "unhandled (run_handler h s) = unhandled s"
  "unsupported_display (run_handler h s) = unsupported_display s"
  "unavailable_display (run_handler h s) = unavailable_display s"
  by (cases h; simp add: input_listener_eq scheduleSummarization_eq)+

lemma timer_inv_run_handler: "timer_inv s \<Longrightarrow> timer_inv (run_handler h s)"
  by (cases h) (auto simp: input_listener_eq scheduleSummarization_eq timer_inv_def)

lemma handlers_frame:
  "tasks (foldl (\<lambda>s' h. run_handler h s') s hs) = tasks s"
  "calls (foldl (\<lambda>s' h. run_handler h s') s hs) = calls s"
  "fired (foldl (\<lambda>s' h. run_handler h s') s hs) = fired s"
  "listeners (foldl (\<lambda>s' h. run_handler h s') s hs) = listeners s"
  "unhandled (foldl (\<lambda>s' h. run_handler h s') s hs) = unhandled s"
  "unsupported_display (foldl (\<lambda>s' h. run_handler h s') s hs) = unsupported_display s"
  "unavailable_display (foldl (\<lambda>s' h. run_handler h s') s hs) = unavailable_display s"
  by (induction hs arbitrary: s; simp add: run_handler_frame)+

lemma timer_inv_handlers:
  "timer_inv s \<Longrightarrow> timer_inv (foldl (\<lambda>s' h. run_handler h s') s hs)"
  by (induction hs arbitrary: s) (simp_all add: timer_inv_run_handler)

lemma user_frame:
  "tasks (user u s) = tasks s"
  "calls (user u s) = calls s"
  "fired (user u s) = fired s"
  "listeners (user u s) = listeners s"
  "unhandled (user u s) = unhandled s"
  "unsupported_display (user u s) = unsupported_display s"
  "unavailable_display (user u s) = unavailable_display s"
  by (cases u; simp add: dispatch_def handlers_frame)+

lemma timer_inv_value:
  "timer_inv (s\<lparr>input_value := x\<rparr>) = timer_inv s"
  "timer_inv (s\<lparr>type_value := x\<rparr>) = timer_inv s"
  "timer_inv (s\<lparr>format_value := x\<rparr>) = timer_inv s"
  "timer_inv (s\<lparr>length_value := x\<rparr>) = timer_inv s"
  by (simp_all add: timer_inv_def)

lemma timer_inv_user: "timer_inv s \<Longrightarrow> timer_inv (user u s)"
  by (cases u) (simp_all add: dispatch_def timer_inv_handlers timer_inv_value)

subsection \<open>Frames of time passing\<close>

lemma timer_inv_elapse: "timer_inv s \<Longrightarrow> timer_inv (elapse d s)"
  by (auto simp: timer_inv_def elapse_eq fire_all_frame split: if_splits)

lemma update_values:
  "c \<notin> snd ` set al \<Longrightarrow> v \<noteq> c \<Longrightarrow> c \<notin> snd ` set (AList.update k v al)"
  by (induction al) auto

lemma delete_values: "c \<notin> snd ` set al \<Longrightarrow> c \<notin> snd ` set (AList.delete k al)"
  by (auto simp: AList.delete_eq)

lemma initializing_fire: "\<not> initializing s \<Longrightarrow> \<not> initializing (fire i s)"
  by (simp add: initializing_def fire_eq update_values)

lemma initializing_fire_all: "\<not> initializing s \<Longrightarrow> \<not> initializing (fire_all ts s)"
  by (induction ts arbitrary: s) (simp_all add: initializing_fire)

lemma initializing_elapse: "\<not> initializing s \<Longrightarrow> \<not> initializing (elapse d s)"
  unfolding elapse_eq by (rule initializing_fire_all) (simp add: initializing_def)

lemma initializing_user: "initializing (user u s) = initializing s"
  by (simp add: initializing_def user_frame)

subsection \<open>Frames of settling\<close>

lemmas resume_defs =
  await_def host_call_def reject_def finish_def initializeApplication_resume_def
  addEventListener_def

lemma resume_timers: "timers (resume tid k x s) = timers s"
  by (induction tid k x s rule: resume.induct)
     (auto simp: resume_defs split: option.splits css_result.splits)

lemma settle_timers: "timers (settle tid x s) = timers s"
  by (simp add: settle_def resume_timers split: option.splits)

lemma resume_callback_frame:
  assumes "k \<noteq> InitAwaitCapabilities"
  shows "timeout (resume tid k x s) = timeout s"
    and "listeners (resume tid k x s) = listeners s"
    and "fired (resume tid k x s) = fired s"
    and "unsupported_display (resume tid k x s) = unsupported_display s"
    and "unavailable_display (resume tid k x s) = unavailable_display s"
  using assms
  by (induction tid k x s rule: resume.induct;
      auto simp: resume_defs split: option.splits css_result.splits)+

lemma resume_fired: "fired (resume tid k x s) = fired s"
  by (induction tid k x s rule: resume.induct)
     (auto simp: resume_defs split: option.splits css_result.splits)

lemma resume_callback_values:
  assumes "k \<noteq> InitAwaitCapabilities" "InitAwaitCapabilities \<notin> snd ` set (tasks s)"
  shows "InitAwaitCapabilities \<notin> snd ` set (tasks (resume tid k x s))"
  using assms
  by (induction tid k x s rule: resume.induct)
     (auto simp: resume_defs update_values delete_values split: option.splits css_result.splits)


subsection \<open>The invariant of the page\<close>

lemma map_of_values: "map_of al k = Some v \<Longrightarrow> v \<in> snd ` set al"
  by (auto dest!: map_of_SomeD intro: rev_image_eqI)

lemma page_inv_settle_ready:
  assumes n: "\<not> initializing s" and t: "timer_inv s"
  shows "\<not> initializing (settle tid x s) \<and> timer_inv (settle tid x s)"
proof (cases "map_of (tasks s) tid")
  case None
  with n t show ?thesis by (simp add: settle_def)
next
  case (Some k)
  from map_of_values [OF Some] n have k: "k \<noteq> InitAwaitCapabilities"
    unfolding initializing_def by blast
  have "timer_inv (resume tid k x s)"
    using t by (simp add: timer_inv_def resume_timers resume_callback_frame(1) [OF k])
  moreover have "\<not> initializing (resume tid k x s)"
    using n resume_callback_values [OF k] by (simp add: initializing_def)
  ultimately show ?thesis by (simp add: settle_def Some)
qed

lemma page_inv_settle_init:
  assumes i: "initializing s" and p: "page_inv s"
  shows "page_inv (settle tid x s)"
proof -
  from i p have len: "length (tasks s) = 1" and tm: "timers s = []" and ls: "listeners s = []"
    by (simp_all add: page_inv_def)
  from len obtain t where ts: "tasks s = [t]"
    by (cases "tasks s") auto
  with i have t: "t = (fst t, InitAwaitCapabilities)"
    by (cases t) (simp add: initializing_def)
  show ?thesis
  proof (cases "tid = fst t")
    case False
    with ts t have "map_of (tasks s) tid = None"
      by (metis fst_conv map_of_Cons_code(1) map_of_Cons_code(2))
    with p show ?thesis by (simp add: settle_def)
  next
    case True
    with ts t have m: "map_of (tasks s) tid = Some InitAwaitCapabilities"
      by (metis map_of_Cons_code(2))
    have d: "AList.delete tid (tasks s) = []"
      using ts t True by (metis AList.delete_simps(1) AList.delete_simps(2) fst_conv)
    show ?thesis
    proof (cases x)
      case (Reject e)
      then show ?thesis
        using tm d by (simp add: settle_def m reject_def finish_def page_inv_def
            initializing_def timer_inv_def)
    next
      case (Fulfil v)
      then show ?thesis
        using tm d p
        by (cases v)
           (simp_all add: settle_def m finish_def page_inv_def initializing_def timer_inv_def
             initializeApplication_resume_def addEventListener_def)
    qed
  qed
qed

lemma page_inv_step: "page_inv s \<Longrightarrow> page_inv (step e s)"
proof (cases e)
  case (User u)
  assume p: "page_inv s"
  show ?thesis
  proof (cases "initializing s")
    case True
    with p have "listeners s = []" by (simp add: page_inv_def)
    then have "tasks (user u s) = tasks s \<and> timers (user u s) = timers s
        \<and> listeners (user u s) = listeners s"
      by (cases u) (simp_all add: dispatch_no_listeners)
    with p True show ?thesis
      by (simp add: User page_inv_def initializing_def)
  next
    case False
    with p have "timer_inv s" by (simp add: page_inv_def)
    with False show ?thesis
      by (simp add: User page_inv_def initializing_user timer_inv_user)
  qed
next
  case (Elapse d)
  assume p: "page_inv s"
  show ?thesis
  proof (cases "initializing s")
    case True
    with p have "timers s = []" by (simp add: page_inv_def)
    then have "elapse d s = s\<lparr>clock := clock s + d\<rparr>" by (rule elapse_no_timers)
    with p True show ?thesis
      by (simp add: Elapse page_inv_def initializing_def)
  next
    case False
    with p have "timer_inv s" by (simp add: page_inv_def)
    with False show ?thesis
      by (simp add: Elapse page_inv_def initializing_elapse timer_inv_elapse)
  qed
next
  case (Settle tid x)
  assume p: "page_inv s"
  show ?thesis
  proof (cases "initializing s")
    case True
    from page_inv_settle_init [OF True p] show ?thesis by (simp add: Settle)
  next
    case False
    with p have "timer_inv s" by (simp add: page_inv_def)
    from page_inv_settle_ready [OF False this] show ?thesis
      by (simp add: Settle page_inv_def)
  qed
qed

lemma page_inv_run: "page_inv s \<Longrightarrow> page_inv (run es s)"
  by (induction es arbitrary: s) (simp_all add: page_inv_step)

lemma page_inv_page: "page_inv (page d)"
  by (simp add: page_def initializeApplication_def loaded_def page_inv_def initializing_def
      timer_inv_def spawn_def host_call_def summarizationApiAvailable_def)

lemma page_inv_timers: "page_inv s \<Longrightarrow> timer_inv s"
  by (simp add: page_inv_def timer_inv_def split: if_splits)


subsection \<open>The input listener\<close>

lemma input_sync:
  assumes l: "listeners s = attached"
  shows "character_count (user (Input text) s) = toFixed (length text)"
    and "(js ''hidden'' \<in> set (character_count_exceed_classes (user (Input text) s))) = (length text \<le> 4000)"
    and "(js ''tokens-exceeded'' \<in> set (character_count_classes (user (Input text) s))) = (4000 < length text)"
    and "input_value (user (Input text) s) = text"
  using l
  by (simp_all add: dispatch_attached input_listener_eq scheduleSummarization_eq
      classList_add_mem classList_remove_mem)

lemma event_to_summarize:
  assumes l: "listeners s = attached" and t: "timer_inv s" and q: "1000 \<le> q" and a: "a \<noteq> No"
  shows "calls (run [User u, Elapse q, Settle (next_task s) (Fulfil (Avail a)),
                     Settle (next_task s) (Fulfil (Sess x))] s) =
         calls s @ [Capabilities,
                    Create \<lparr>opt_type = type_value (user u s), opt_format = format_value (user u s),
                            opt_length = length_value (user u s), opt_monitor = None\<rparr>,
                    Summarize x (input_value (user u s))]"
proof -
  let ?s1 = "user u s"
  note f = user_attached [OF l t, of u]
  from armed_fires [OF armed_user [OF l t, of u] q] obtain i where
    e: "elapse q ?s1 = fire i (?s1\<lparr>clock := clock ?s1 + q, timers := []\<rparr>)"
    by blast
  show ?thesis
    using a f(6,8)
    by (simp add: e fire_eq settle_capabilities_ok settle_create update_conv')
qed

text \<open>
  C3: on an input event the displayed character count is the length of the input text (its
  decimal digits, which read back as that length); the over-limit indicator is shown (the
  class \<open>hidden\<close> is off the indicator, \<open>tokens-exceeded\<close> is on the count) exactly when
  the length is greater than 4000, so it is hidden at 4000 and below; and whatever the
  length, the event schedules the timer, and once it fires and the host has answered, the
  whole text is summarized.
\<close>

theorem input_listener_character_count:
  assumes l: "listeners s = attached" and t: "timer_inv s" and q: "1000 \<le> q" and a: "a \<noteq> No"
  shows "character_count (step (User (Input text)) s) = toFixed (length text) \<and>
         displayed_number (character_count (step (User (Input text)) s)) = length text \<and>
         (js ''hidden'' \<notin> set (character_count_exceed_classes (step (User (Input text)) s))
            \<longleftrightarrow> length text > MAX_MODEL_CHARS) \<and>
         (js ''tokens-exceeded'' \<in> set (character_count_classes (step (User (Input text)) s))
            \<longleftrightarrow> length text > MAX_MODEL_CHARS) \<and>
         MAX_MODEL_CHARS = 4000 \<and>
         timers (step (User (Input text)) s) = [(next_timer s, clock s + 1000)] \<and>
         calls (run [User (Input text), Elapse q, Settle (next_task s) (Fulfil (Avail a)),
                     Settle (next_task s) (Fulfil (Sess x))] s) =
         calls s @ [Capabilities,
                    Create \<lparr>opt_type = type_value s, opt_format = format_value s,
                            opt_length = length_value s, opt_monitor = None\<rparr>,
                    Summarize x text]"
proof -
  have v: "type_value (user (Input text) s) = type_value s"
    "format_value (user (Input text) s) = format_value s"
    "length_value (user (Input text) s) = length_value s"
    using l by (simp_all add: dispatch_attached input_listener_eq scheduleSummarization_eq)
  show ?thesis
    using input_sync [OF l, of "text"] user_attached(1) [OF l t, of "Input text"]
      event_to_summarize [OF l t q a, of "Input text" x] v
    by (simp add: displayed_number_toFixed MAX_MODEL_CHARS_def not_le)
qed


subsection \<open>The example page\<close>

lemma page_demo:
  "page demo = demo\<lparr>tasks := [(0, InitAwaitCapabilities)], next_task := 1, calls := [Capabilities]\<rparr>"
  by (simp add: page_def loaded_def initializeApplication_def summarizationApiAvailable_def
      spawn_def host_call_def demo_def)

lemma demo_ready_eq:
  "demo_ready = demo\<lparr>listeners := attached, next_task := 1, calls := [Capabilities]\<rparr>"
  unfolding demo_ready_def page_demo
  by (simp add: settle_def finish_def initializeApplication_resume_def
      addEventListener_def attached_def demo_def)

lemma demo_ready_fields:
  "listeners demo_ready = attached"
  "timers demo_ready = []"
  "timer_inv demo_ready"
  "tasks demo_ready = []"
  "next_task demo_ready = 1"
  "next_timer demo_ready = 1"
  "clock demo_ready = 0"
  "calls demo_ready = [Capabilities]"
  "fired demo_ready = []"
  "unhandled demo_ready = []"
  "type_value demo_ready = js ''key-points''"
  "format_value demo_ready = js ''plain-text''"
  "length_value demo_ready = js ''short''"
  by (simp_all add: demo_ready_eq demo_def timer_inv_def)

text \<open>
  An instance of C3: 4001 characters typed into the example page are counted as \<open>4001\<close>,
  the indicator is shown, and the text is summarized all the same.
\<close>

theorem input_listener_character_count_witness:
  "listeners demo_ready = attached \<and> timer_inv demo_ready \<and> (1000::nat) \<le> 1000 \<and> Readily \<noteq> No \<and>
   character_count (step (User (Input (replicate 4001 97))) demo_ready) = js ''4001'' \<and>
   js ''hidden'' \<notin> set (character_count_exceed_classes (step (User (Input (replicate 4001 97))) demo_ready)) \<and>
   calls (run [User (Input (replicate 4001 97)), Elapse 1000, Settle 1 (Fulfil (Avail Readily)),
               Settle 1 (Fulfil (Sess 7))] demo_ready) =
     [Capabilities, Capabilities,
      Create \<lparr>opt_type = js ''key-points'', opt_format = js ''plain-text'',
              opt_length = js ''short'', opt_monitor = None\<rparr>,
      Summarize 7 (replicate 4001 97)]"
  using input_listener_character_count [of demo_ready 1000 Readily "replicate 4001 97" 7]
  by (simp add: demo_ready_fields MAX_MODEL_CHARS_def toFixed.simps js_def digit_def)


subsection \<open>Session creation\<close>

text \<open>
  C4: \<open>createSummarizationSession\<close> queries the availability first; once the host has
  reported it, the function throws exactly when the report is \<open>no\<close>, and what it throws then
  is the error "AI Summarization is not supported"; on any other report it calls
  \<open>create\<close> with the three options and the monitor, stays suspended until the host
  settles that call, and returns the very session the host fulfils it with.
\<close>

theorem createSummarizationSession_throws_iff_no:
  "fst (createSummarizationSession t f l dl) = [Capabilities] \<and>
   ((\<exists>cs e. createSummarizationSession_resume (snd (createSummarizationSession t f l dl))
              (Fulfil (Avail a)) = Some (cs, Thrown e)) \<longleftrightarrow> a = No) \<and>
   (createSummarizationSession_resume (snd (createSummarizationSession t f l dl))
      (Fulfil (Avail a)) =
        Some ([], Thrown (Error (js ''AI Summarization is not supported''))) \<longleftrightarrow> a = No) \<and>
   (a \<noteq> No \<longrightarrow>
      createSummarizationSession_resume (snd (createSummarizationSession t f l dl))
        (Fulfil (Avail a)) =
          Some ([Create \<lparr>opt_type = t, opt_format = f, opt_length = l,
                          opt_monitor = map_option RegisterDownloadProgress dl\<rparr>],
                Suspended AtCreate)) \<and>
   createSummarizationSession_resume AtCreate (Fulfil (Sess x)) = Some ([], Returned x)"
  by (cases dl) (auto simp: createSummarizationSession_def)

text \<open>
  Instances of C4: on \<open>no\<close> the function throws; on \<open>after-download\<close> it calls
  \<open>create\<close> and waits.
\<close>

theorem createSummarizationSession_throws_iff_no_witness:
  "createSummarizationSession_resume
     (snd (createSummarizationSession (js ''tl;dr'') (js ''markdown'') (js ''long'') None))
     (Fulfil (Avail No)) =
       Some ([], Thrown (Error (js ''AI Summarization is not supported''))) \<and>
   AfterDownload \<noteq> No \<and>
   createSummarizationSession_resume
     (snd (createSummarizationSession (js ''tl;dr'') (js ''markdown'') (js ''long'') None))
     (Fulfil (Avail AfterDownload)) =
       Some ([Create \<lparr>opt_type = js ''tl;dr'', opt_format = js ''markdown'',
                       opt_length = js ''long'', opt_monitor = None\<rparr>],
             Suspended AtCreate)"
  using createSummarizationSession_throws_iff_no
          [of "js ''tl;dr''" "js ''markdown''" "js ''long''" None No]
        createSummarizationSession_throws_iff_no
          [of "js ''tl;dr''" "js ''markdown''" "js ''long''" None AfterDownload]
  by simp

subsection \<open>The failing re-check\<close>

text \<open>
  C10: when the timer has fired and the host, some time later, reports \<open>no\<close> to the
  re-check inside session creation, the error "AI Summarization is not supported" ends the
  callback as an unhandled rejection: no further host call is made, and the output still
  shows "Generating summary...". In any state, the failing re-check of a suspended callback
  leaves the output and the host calls as they are.
\<close>

theorem recheck_failure_unhandled:
  assumes a: "armed s" and q: "1000 \<le> q"
  shows "output_text (run [Elapse q, Elapse d, Settle (next_task s) (Fulfil (Avail No))] s) =
           js ''Generating summary...'' \<and>
         unhandled (run [Elapse q, Elapse d, Settle (next_task s) (Fulfil (Avail No))] s) =
           unhandled s @ [Error (js ''AI Summarization is not supported'')] \<and>
         calls (run [Elapse q, Elapse d, Settle (next_task s) (Fulfil (Avail No))] s) =
           calls s @ [Capabilities] \<and>
         map_of (tasks (run [Elapse q, Elapse d, Settle (next_task s) (Fulfil (Avail No))] s))
           (next_task s) = None \<and>
         (map_of (tasks s') tid = Some (CallbackAwaitSession (AtCapabilities t f l dl)) \<longrightarrow>
            output_text (settle tid (Fulfil (Avail No)) s') = output_text s' \<and>
            calls (settle tid (Fulfil (Avail No)) s') = calls s' \<and>
            unhandled (settle tid (Fulfil (Avail No)) s') =
              unhandled s' @ [Error (js ''AI Summarization is not supported'')] \<and>
            map_of (tasks (settle tid (Fulfil (Avail No)) s')) tid = None)"
proof -
  from armed_fires [OF a q] obtain i where
    e: "elapse q s = fire i (s\<lparr>clock := clock s + q, timers := []\<rparr>)"
    by blast
  have "output_text (run [Elapse q, Elapse d, Settle (next_task s) (Fulfil (Avail No))] s) =
           js ''Generating summary...'' \<and>
         unhandled (run [Elapse q, Elapse d, Settle (next_task s) (Fulfil (Avail No))] s) =
           unhandled s @ [Error (js ''AI Summarization is not supported'')] \<and>
         calls (run [Elapse q, Elapse d, Settle (next_task s) (Fulfil (Avail No))] s) =
           calls s @ [Capabilities] \<and>
         map_of (tasks (run [Elapse q, Elapse d, Settle (next_task s) (Fulfil (Avail No))] s))
           (next_task s) = None"
    by (simp add: e fire_eq elapse_no_timers settle_capabilities_no update_conv' delete_conv')
  moreover have
    "map_of (tasks s') tid = Some (CallbackAwaitSession (AtCapabilities t f l dl)) \<longrightarrow>
       output_text (settle tid (Fulfil (Avail No)) s') = output_text s' \<and>
       calls (settle tid (Fulfil (Avail No)) s') = calls s' \<and>
       unhandled (settle tid (Fulfil (Avail No)) s') =
         unhandled s' @ [Error (js ''AI Summarization is not supported'')] \<and>
       map_of (tasks (settle tid (Fulfil (Avail No)) s')) tid = None"
    by (simp add: settle_capabilities_no delete_conv')
  ultimately show ?thesis by blast
qed

subsection \<open>A page without listeners\<close>

lemma inert_step:
  assumes "listeners s = []" "timers s = []" "tasks s = []"
  shows "listeners (step e s) = [] \<and> timers (step e s) = [] \<and> tasks (step e s) = [] \<and>
         calls (step e s) = calls s \<and> fired (step e s) = fired s \<and>
         unhandled (step e s) = unhandled s \<and>
         unsupported_display (step e s) = unsupported_display s \<and>
         unavailable_display (step e s) = unavailable_display s \<and>
         output_text (step e s) = output_text s"
proof (cases e)
  case (User u)
  with assms show ?thesis by (cases u) (simp_all add: dispatch_no_listeners)
next
  case (Elapse d)
  with assms show ?thesis by (simp add: elapse_no_timers)
next
  case (Settle tid x)
  with assms show ?thesis by (simp add: settle_unknown)
qed

lemma inert_run:
  assumes "listeners s = []" "timers s = []" "tasks s = []"
  shows "listeners (run es s) = [] \<and> timers (run es s) = [] \<and> tasks (run es s) = [] \<and>
         calls (run es s) = calls s \<and> fired (run es s) = fired s \<and>
         unhandled (run es s) = unhandled s \<and>
         unsupported_display (run es s) = unsupported_display s \<and>
         unavailable_display (run es s) = unavailable_display s \<and>
         output_text (run es s) = output_text s"
  using assms
proof (induction es arbitrary: s)
  case Nil
  then show ?case by simp
next
  case (Cons e es)
  from inert_step [OF Cons.prems, of e] Cons.IH [of "step e s"] show ?case
    by simp
qed


lemma demo_typed:
  "armed (step (User (Input text)) demo_ready)"
  "next_task (step (User (Input text)) demo_ready) = 1"
  "calls (step (User (Input text)) demo_ready) = [Capabilities]"
  "unhandled (step (User (Input text)) demo_ready) = []"
  "fired (step (User (Input text)) demo_ready) = []"
  "tasks (step (User (Input text)) demo_ready) = []"
  using armed_user [OF demo_ready_fields(1,3), of "Input text"]
    user_attached [OF demo_ready_fields(1,3), of "Input text"]
  by (simp_all add: demo_ready_fields)

text \<open>
  An instance of C10: on the example page, text is typed, the timer fires 1500ms later and
  the host reports \<open>no\<close>.
\<close>

theorem recheck_failure_unhandled_witness:
  "armed (step (User (Input (js ''Hello world''))) demo_ready) \<and> (1000::nat) \<le> 1500 \<and>
   output_text (run [Elapse 1500, Elapse 40, Settle 1 (Fulfil (Avail No))]
                  (step (User (Input (js ''Hello world''))) demo_ready)) =
     js ''Generating summary...'' \<and>
   unhandled (run [Elapse 1500, Elapse 40, Settle 1 (Fulfil (Avail No))]
                (step (User (Input (js ''Hello world''))) demo_ready)) =
     [Error (js ''AI Summarization is not supported'')] \<and>
   calls (run [Elapse 1500, Elapse 40, Settle 1 (Fulfil (Avail No))]
            (step (User (Input (js ''Hello world''))) demo_ready)) =
     [Capabilities, Capabilities]"
  using recheck_failure_unhandled
          [of "step (User (Input (js ''Hello world''))) demo_ready" 1500 40 demo_ready 0
              "[]" "[]" "[]" None]
    demo_typed [of "js ''Hello world''"]
  by (simp add: demo_ready_fields)

subsection \<open>Initialization without the capability\<close>

lemma loaded_fields:
  "listeners (loaded d) = []" "timers (loaded d) = []" "tasks (loaded d) = []"
  "calls (loaded d) = []" "fired (loaded d) = []" "unhandled (loaded d) = []"
  "summarizationApiAvailable (loaded d) = summarizationApiAvailable d"
  by (simp_all add: loaded_def summarizationApiAvailable_def)

text \<open>
  C5: when \<open>window.ai\<close> or its summarizer is undefined, \<open>initializeApplication\<close> only shows
  the "unavailable" dialog: it makes no host call, attaches no listener and suspends
  nothing, and whatever happens on the page afterwards, that stays so.
\<close>

theorem unavailable_dialog_and_halt:
  assumes "\<not> summarizationApiAvailable d"
  shows "page d = (loaded d)\<lparr>unavailable_display := js ''block''\<rparr> \<and>
         unavailable_display (run evs (page d)) = js ''block'' \<and>
         calls (run evs (page d)) = [] \<and>
         listeners (run evs (page d)) = [] \<and>
         tasks (run evs (page d)) = [] \<and>
         timers (run evs (page d)) = [] \<and>
         fired (run evs (page d)) = []"
proof -
  have p: "page d = (loaded d)\<lparr>unavailable_display := js ''block''\<rparr>"
    using assms by (simp add: page_def initializeApplication_def loaded_fields)
  have "listeners (page d) = []" "timers (page d) = []" "tasks (page d) = []"
    by (simp_all add: p loaded_fields)
  from inert_run [OF this, of evs] show ?thesis
    by (simp add: p loaded_fields)
qed

text \<open>
  Instances of C5: \<open>window.ai\<close> undefined, and \<open>window.ai.summarizer\<close> undefined, with a
  user who types and waits.
\<close>

theorem unavailable_dialog_and_halt_witness:
  "\<not> summarizationApiAvailable (demo\<lparr>window_ai := None\<rparr>) \<and>
   \<not> summarizationApiAvailable (demo\<lparr>window_ai := Some \<lparr>summarizer = None\<rparr>\<rparr>) \<and>
   unavailable_display
     (run [User (Input (js ''Hello world'')), Elapse 1000] (page (demo\<lparr>window_ai := None\<rparr>))) =
     js ''block'' \<and>
   calls (run [User (Input (js ''Hello world'')), Elapse 1000] (page (demo\<lparr>window_ai := None\<rparr>))) = [] \<and>
   calls (run [User (Input (js ''Hello world'')), Elapse 1000]
            (page (demo\<lparr>window_ai := Some \<lparr>summarizer = None\<rparr>\<rparr>))) = []"
  using unavailable_dialog_and_halt
          [of "demo\<lparr>window_ai := None\<rparr>" "[User (Input (js ''Hello world'')), Elapse 1000]",
           THEN conjunct2]
        unavailable_dialog_and_halt
          [of "demo\<lparr>window_ai := Some \<lparr>summarizer = None\<rparr>\<rparr>"
              "[User (Input (js ''Hello world'')), Elapse 1000]", THEN conjunct2]
  by (simp add: summarizationApiAvailable_def)

subsection \<open>Initialization with availability \<open>no\<close>\<close>

lemma page_available:
  assumes "summarizationApiAvailable d"
  shows "page d = (loaded d)\<lparr>tasks := [(0, InitAwaitCapabilities)], next_task := 1,
                              calls := [Capabilities]\<rparr>"
  using assms
  by (simp add: page_def initializeApplication_def loaded_fields spawn_def host_call_def)
     (simp add: loaded_def)

lemma waiting_step:
  assumes "tasks s = [(0, InitAwaitCapabilities)]" "listeners s = []" "timers s = []"
    and "\<not> host_event e"
  shows "tasks (step e s) = [(0, InitAwaitCapabilities)] \<and> listeners (step e s) = [] \<and>
         timers (step e s) = [] \<and> calls (step e s) = calls s \<and> fired (step e s) = fired s"
proof (cases e)
  case (User u)
  with assms show ?thesis by (cases u) (simp_all add: dispatch_no_listeners)
next
  case (Elapse d)
  with assms show ?thesis by (simp add: elapse_no_timers)
next
  case (Settle tid x)
  with assms show ?thesis by simp
qed

lemma waiting_run:
  assumes "tasks s = [(0, InitAwaitCapabilities)]" "listeners s = []" "timers s = []"
    and "\<forall>e \<in> set es. \<not> host_event e"
  shows "tasks (run es s) = [(0, InitAwaitCapabilities)] \<and> listeners (run es s) = [] \<and>
         timers (run es s) = [] \<and> calls (run es s) = calls s \<and> fired (run es s) = fired s"
  using assms
proof (induction es arbitrary: s)
  case Nil
  then show ?case by simp
next
  case (Cons e es)
  from Cons.prems have e: "\<not> host_event e" and es: "\<forall>e \<in> set es. \<not> host_event e"
    by simp_all
  from waiting_step [OF Cons.prems(1-3) e] Cons.IH [of "step e s"] es show ?case
    by simp
qed

text \<open>
  C6: when the capability is present and the host reports \<open>no\<close> to
  \<open>initializeApplication\<close> (whatever the user did while it waited), the "unsupported"
  dialog is shown and no listener is attached; from then on, whatever happens, no timer is
  set or fired and the only host call ever made is the availability query of initialization.
\<close>

theorem unsupported_dialog_and_halt:
  assumes av: "summarizationApiAvailable d" and pre: "\<forall>e \<in> set pre. \<not> host_event e"
  shows "unsupported_display
           (run post (step (Settle 0 (Fulfil (Avail No))) (run pre (page d)))) = js ''block'' \<and>
         listeners (run post (step (Settle 0 (Fulfil (Avail No))) (run pre (page d)))) = [] \<and>
         timers (run post (step (Settle 0 (Fulfil (Avail No))) (run pre (page d)))) = [] \<and>
         fired (run post (step (Settle 0 (Fulfil (Avail No))) (run pre (page d)))) = [] \<and>
         tasks (run post (step (Settle 0 (Fulfil (Avail No))) (run pre (page d)))) = [] \<and>
         calls (run post (step (Settle 0 (Fulfil (Avail No))) (run pre (page d)))) =
           [Capabilities]"
proof -
  let ?w = "run pre (page d)"
  let ?n = "settle 0 (Fulfil (Avail No)) ?w"
  have "tasks (page d) = [(0, InitAwaitCapabilities)]" "listeners (page d) = []"
    "timers (page d) = []"
    by (simp_all add: page_available [OF av] loaded_fields)
  from waiting_run [OF this pre] have w: "tasks ?w = [(0, InitAwaitCapabilities)]"
    "listeners ?w = []" "timers ?w = []" "calls ?w = [Capabilities]" "fired ?w = []"
    by (simp_all add: page_available [OF av] loaded_fields)
  have n: "?n = ?w\<lparr>tasks := [], unsupported_display := js ''block''\<rparr>"
    using w by (simp add: settle_def finish_def initializeApplication_resume_def)
  have "listeners ?n = []" "timers ?n = []" "tasks ?n = []"
    using w by (simp_all add: n)
  from inert_run [OF this, of post] w show ?thesis
    by (simp add: n)
qed


text \<open>
  An instance of C6: on the example page the user types before the host reports \<open>no\<close>, and
  changes the length selector and waits after it.
\<close>

theorem unsupported_dialog_and_halt_witness:
  "summarizationApiAvailable demo \<and>
   \<not> host_event (User (Input (js ''Hello world''))) \<and> \<not> host_event (Elapse 2000) \<and>
   unsupported_display
     (run [User (ChangeLength (js ''long'')), Elapse 5000]
        (step (Settle 0 (Fulfil (Avail No)))
           (run [User (Input (js ''Hello world'')), Elapse 2000] (page demo)))) = js ''block'' \<and>
   listeners
     (run [User (ChangeLength (js ''long'')), Elapse 5000]
        (step (Settle 0 (Fulfil (Avail No)))
           (run [User (Input (js ''Hello world'')), Elapse 2000] (page demo)))) = [] \<and>
   calls
     (run [User (ChangeLength (js ''long'')), Elapse 5000]
        (step (Settle 0 (Fulfil (Avail No)))
           (run [User (Input (js ''Hello world'')), Elapse 2000] (page demo)))) = [Capabilities]"
  using unsupported_dialog_and_halt
          [of demo "[User (Input (js ''Hello world'')), Elapse 2000]"
              "[User (ChangeLength (js ''long'')), Elapse 5000]"]
  by (simp add: summarizationApiAvailable_def demo_def)

subsection \<open>The pending timer\<close>

lemma clearTimeout_removes: "h \<notin> fst ` set (timers (clearTimeout (Some h) s))"
  by (auto simp: clearTimeout_def)

text \<open>
  C8: in every state the page can reach, at most one timer is pending, and it is the one
  whose handle \<open>timeout\<close> holds; \<open>scheduleSummarization\<close> keeps this so, because
  \<open>clearTimeout\<close> removes the timer of the stored handle before the new one is set and
  stored.
\<close>

theorem single_pending_timer:
  "length (timers (run evs (page d))) \<le> 1 \<and>
   timer_inv (run evs (page d)) \<and>
   h \<notin> fst ` set (timers (clearTimeout (Some h) s)) \<and>
   (timer_inv s \<longrightarrow>
      timers (scheduleSummarization s) = [(next_timer s, clock s + 1000)] \<and>
      timeout (scheduleSummarization s) = Some (next_timer s))"
proof -
  have t: "timer_inv (run evs (page d))"
    by (rule page_inv_timers [OF page_inv_run [OF page_inv_page]])
  then have "length (timers (run evs (page d))) \<le> 1"
    by (auto simp: timer_inv_def dest: arg_cong [where f = length])
  moreover have "timeout (scheduleSummarization s) = Some (next_timer s)"
    by (simp add: scheduleSummarization_eq)
  ultimately show ?thesis
    using t by (simp add: clearTimeout_removes timers_schedule)
qed

text \<open>
  An instance of C8: after three events in quick succession on the example page, and in the
  example page once ready.
\<close>

theorem single_pending_timer_witness:
  "length (timers (run [Settle 0 (Fulfil (Avail Readily)), User (Input (js ''a'')), Elapse 300,
                User (ChangeType (js ''teaser'')), Elapse 300, User (Input (js ''ab''))]
             (page demo))) \<le> 1 \<and>
   timer_inv demo_ready \<and>
   timers (scheduleSummarization demo_ready) = [(1, 1000)]"
  using single_pending_timer
          [of "[Settle 0 (Fulfil (Avail Readily)), User (Input (js ''a'')), Elapse 300,
                User (ChangeType (js ''teaser'')), Elapse 300, User (Input (js ''ab''))]"
              demo 0 demo_ready]
  by (simp add: demo_ready_fields)


subsection \<open>From the last event to the summary\<close>

lemma armed_cycle:
  assumes a: "armed s" and q: "1000 \<le> q" and ok: "av \<noteq> No"
  shows "\<exists>i. timeout s = Some i \<and>
           run [Elapse q, Settle (next_task s) (Fulfil (Avail av)),
                Elapse d1, Settle (next_task s) (Fulfil (Sess x)),
                Elapse d2, Settle (next_task s) (Fulfil (Summary r))] s =
           s\<lparr>clock := clock s + q + d1 + d2,
             timers := [],
             fired := fired s @ [i],
             output_text := r,
             calls := calls s @
               [Capabilities,
                Create \<lparr>opt_type = type_value s, opt_format = format_value s,
                        opt_length = length_value s, opt_monitor = None\<rparr>,
                Summarize x (input_value s),
                Destroy x],
             tasks := AList.delete (next_task s) (tasks s),
             next_task := next_task s + 1\<rparr>"
proof -
  from armed_fires [OF a q] obtain i where
    i: "timeout s = Some i" and
    e: "elapse q s = fire i (s\<lparr>clock := clock s + q, timers := []\<rparr>)"
    by blast
  have "run [Elapse q, Settle (next_task s) (Fulfil (Avail av)),
             Elapse d1, Settle (next_task s) (Fulfil (Sess x)),
             Elapse d2, Settle (next_task s) (Fulfil (Summary r))] s =
        s\<lparr>clock := clock s + q + d1 + d2,
          timers := [],
          fired := fired s @ [i],
          output_text := r,
          calls := calls s @
            [Capabilities,
             Create \<lparr>opt_type = type_value s, opt_format = format_value s,
                     opt_length = length_value s, opt_monitor = None\<rparr>,
             Summarize x (input_value s),
             Destroy x],
          tasks := AList.delete (next_task s) (tasks s),
          next_task := next_task s + 1\<rparr>"
    using ok
    by (simp add: e fire_eq elapse_no_timers settle_capabilities_ok settle_create
        settle_summarize update_conv' delete_update_same)
  with i show ?thesis by blast
qed

lemma armed_fire_task:
  assumes a: "armed s" and q: "1000 \<le> q"
  shows "length (fired (elapse q s)) = length (fired s) + 1"
    and "tasks (elapse q s) =
           AList.update (next_task s)
             (CallbackAwaitSession
                (AtCapabilities (type_value s) (format_value s) (length_value s) None))
             (tasks s)"
    and "calls (elapse q s) = calls s @ [Capabilities]"
    and "timers (elapse q s) = []"
proof -
  from armed_fires [OF a q] obtain i where
    e: "elapse q s = fire i (s\<lparr>clock := clock s + q, timers := []\<rparr>)"
    by blast
  show "length (fired (elapse q s)) = length (fired s) + 1"
    "tasks (elapse q s) =
           AList.update (next_task s)
             (CallbackAwaitSession
                (AtCapabilities (type_value s) (format_value s) (length_value s) None))
             (tasks s)"
    "calls (elapse q s) = calls s @ [Capabilities]"
    "timers (elapse q s) = []"
    by (simp_all add: e fire_eq)
qed

subsection \<open>The values of the controls\<close>

lemma run_handler_values:
  "input_value (run_handler h s) = input_value s"
  "type_value (run_handler h s) = type_value s"
  "format_value (run_handler h s) = format_value s"
  "length_value (run_handler h s) = length_value s"
  by (cases h; simp add: input_listener_eq scheduleSummarization_eq)+

lemma handlers_values:
  "input_value (foldl (\<lambda>s' h. run_handler h s') s hs) = input_value s"
  "type_value (foldl (\<lambda>s' h. run_handler h s') s hs) = type_value s"
  "format_value (foldl (\<lambda>s' h. run_handler h s') s hs) = format_value s"
  "length_value (foldl (\<lambda>s' h. run_handler h s') s hs) = length_value s"
  by (induction hs arbitrary: s; simp add: run_handler_values)+

lemma dispatch_values:
  "input_value (dispatch el s) = input_value s"
  "type_value (dispatch el s) = type_value s"
  "format_value (dispatch el s) = format_value s"
  "length_value (dispatch el s) = length_value s"
  by (simp_all add: dispatch_def handlers_values)

lemma user_values:
  "input_value (user u s) = (case u of Input v \<Rightarrow> v | _ \<Rightarrow> input_value s)"
  "type_value (user u s) = (case u of ChangeType v \<Rightarrow> v | _ \<Rightarrow> type_value s)"
  "format_value (user u s) = (case u of ChangeFormat v \<Rightarrow> v | _ \<Rightarrow> format_value s)"
  "length_value (user u s) = (case u of ChangeLength v \<Rightarrow> v | _ \<Rightarrow> length_value s)"
  by (cases u; simp add: dispatch_def handlers_values)+

lemma elapse_values:
  "input_value (elapse d s) = input_value s"
  "type_value (elapse d s) = type_value s"
  "format_value (elapse d s) = format_value s"
  "length_value (elapse d s) = length_value s"
  "listeners (elapse d s) = listeners s"
  by (simp_all add: elapse_eq fire_all_frame)

lemma burst_snoc: "burst (evs @ [(d, u)]) = burst evs @ [Elapse d, User u]"
  by (induction evs) auto


subsection \<open>One event, then quiet\<close>

text \<open>
  C2: on a ready page, after one qualifying event that leaves the text "Hello world" and the
  options \<open>key-points\<close>, \<open>plain-text\<close>, \<open>short\<close>, a quiet period of at least 1000ms and a
  host that reports \<open>readily\<close> and then fulfils each call, the script has made, after the
  availability re-check, exactly one \<open>create\<close> call with those options, then one
  \<open>summarize\<close> call with "Hello world" on the session it was given, then one \<open>destroy\<close>
  call on that session, and shows the summary.
\<close>

theorem hello_world_create_summarize_destroy:
  assumes l: "listeners s = attached" and t: "timer_inv s" and q: "1000 \<le> q"
    and v: "input_value (step (User u) s) = js ''Hello world''"
      "type_value (step (User u) s) = js ''key-points''"
      "format_value (step (User u) s) = js ''plain-text''"
      "length_value (step (User u) s) = js ''short''"
  shows "calls (run [User u, Elapse q, Settle (next_task s) (Fulfil (Avail Readily)),
                     Elapse d1, Settle (next_task s) (Fulfil (Sess x)),
                     Elapse d2, Settle (next_task s) (Fulfil (Summary r))] s) =
           calls s @
             [Capabilities,
              Create \<lparr>opt_type = js ''key-points'', opt_format = js ''plain-text'',
                      opt_length = js ''short'', opt_monitor = None\<rparr>,
              Summarize x (js ''Hello world''),
              Destroy x] \<and>
         output_text (run [User u, Elapse q, Settle (next_task s) (Fulfil (Avail Readily)),
                           Elapse d1, Settle (next_task s) (Fulfil (Sess x)),
                           Elapse d2, Settle (next_task s) (Fulfil (Summary r))] s) = r \<and>
         length (fired (run [User u, Elapse q, Settle (next_task s) (Fulfil (Avail Readily)),
                             Elapse d1, Settle (next_task s) (Fulfil (Sess x)),
                             Elapse d2, Settle (next_task s) (Fulfil (Summary r))] s)) =
           length (fired s) + 1"
proof -
  let ?s1 = "user u s"
  note f = user_attached [OF l t, of u]
  have ok: "Readily \<noteq> No" by simp
  from armed_cycle [OF armed_user [OF l t, of u] q ok, of d1 x d2 r] obtain i where
    "run [Elapse q, Settle (next_task ?s1) (Fulfil (Avail Readily)),
          Elapse d1, Settle (next_task ?s1) (Fulfil (Sess x)),
          Elapse d2, Settle (next_task ?s1) (Fulfil (Summary r))] ?s1 =
     ?s1\<lparr>clock := clock ?s1 + q + d1 + d2,
         timers := [],
         fired := fired ?s1 @ [i],
         output_text := r,
         calls := calls ?s1 @
           [Capabilities,
            Create \<lparr>opt_type = type_value ?s1, opt_format = format_value ?s1,
                    opt_length = length_value ?s1, opt_monitor = None\<rparr>,
            Summarize x (input_value ?s1),
            Destroy x],
         tasks := AList.delete (next_task ?s1) (tasks ?s1),
         next_task := next_task ?s1 + 1\<rparr>"
    by blast
  then have "run [User u, Elapse q, Settle (next_task s) (Fulfil (Avail Readily)),
                  Elapse d1, Settle (next_task s) (Fulfil (Sess x)),
                  Elapse d2, Settle (next_task s) (Fulfil (Summary r))] s =
     ?s1\<lparr>clock := clock ?s1 + q + d1 + d2,
         timers := [],
         fired := fired s @ [i],
         output_text := r,
         calls := calls s @
           [Capabilities,
            Create \<lparr>opt_type = js ''key-points'', opt_format = js ''plain-text'',
                    opt_length = js ''short'', opt_monitor = None\<rparr>,
            Summarize x (js ''Hello world''),
            Destroy x],
         tasks := AList.delete (next_task s) (tasks s),
         next_task := next_task s + 1\<rparr>"
    using f(5-8) v by simp
  then show ?thesis by simp
qed

text \<open>
  An instance of C2: "Hello world" typed into the example page, whose selectors are on
  \<open>key-points\<close>, \<open>plain-text\<close> and \<open>short\<close>; the host gives session 7 and a summary.
\<close>

theorem hello_world_create_summarize_destroy_witness:
  "listeners demo_ready = attached \<and> timer_inv demo_ready \<and> (1000::nat) \<le> 1000 \<and>
   input_value (step (User (Input (js ''Hello world''))) demo_ready) = js ''Hello world'' \<and>
   type_value (step (User (Input (js ''Hello world''))) demo_ready) = js ''key-points'' \<and>
   format_value (step (User (Input (js ''Hello world''))) demo_ready) = js ''plain-text'' \<and>
   length_value (step (User (Input (js ''Hello world''))) demo_ready) = js ''short'' \<and>
   calls (run [User (Input (js ''Hello world'')), Elapse 1000,
               Settle 1 (Fulfil (Avail Readily)),
               Elapse 20, Settle 1 (Fulfil (Sess 7)),
               Elapse 300, Settle 1 (Fulfil (Summary (js ''A greeting.'')))] demo_ready) =
     [Capabilities, Capabilities,
      Create \<lparr>opt_type = js ''key-points'', opt_format = js ''plain-text'',
              opt_length = js ''short'', opt_monitor = None\<rparr>,
      Summarize 7 (js ''Hello world''),
      Destroy 7] \<and>
   output_text (run [User (Input (js ''Hello world'')), Elapse 1000,
               Settle 1 (Fulfil (Avail Readily)),
               Elapse 20, Settle 1 (Fulfil (Sess 7)),
               Elapse 300, Settle 1 (Fulfil (Summary (js ''A greeting.'')))] demo_ready) =
     js ''A greeting.''"
  using hello_world_create_summarize_destroy
          [of demo_ready 1000 "Input (js ''Hello world'')" 20 7 300 "js ''A greeting.''"]
  by (simp add: demo_ready_fields dispatch_values)


subsection \<open>The debounce\<close>

lemma gaps_take:
  assumes "\<forall>g \<in> set (tl evs). fst g < (1000::nat)"
  shows "\<forall>g \<in> set (tl (take n evs)). fst g < 1000"
proof -
  have "set (tl (take n evs)) \<subseteq> set (tl evs)"
    by (metis in_set_takeD subsetI take_tl tl_take)
  with assms show ?thesis by blast
qed

lemma burst_quiet:
  assumes l: "listeners s = attached" and idle: "timers s = []"
    and gaps: "\<forall>g \<in> set (tl evs). fst g < 1000"
  shows "fired (run (burst (take n evs)) s) = fired s \<and>
         calls (run (burst (take n evs)) s) = calls s"
proof (cases "take n evs = []")
  case True
  then have "run (burst (take n evs)) s = s" by (simp only: burst.simps run.simps)
  then show ?thesis by simp
next
  case False
  from burst_idle [OF l idle False gaps_take [OF gaps]] show ?thesis by simp
qed

text \<open>
  C1: on a ready page with no timer pending, take any sequence of qualifying events, each
  less than 1000ms after the one before. While the events go on, however many and however
  long, nothing fires and no host call is made; after the last event exactly one timer is
  pending, a full 1000ms away, the earlier ones having been cancelled. A quiet period of at
  least 1000ms then fires it, once: the callback is started with the option values as they
  are after the last event, and when the host reports an availability other than \<open>no\<close>
  and fulfils the calls, the session is created with those options and the text as it is
  after the last event is summarized.
\<close>

theorem debounce_trailing_edge:
  assumes l: "listeners s = attached" and idle: "timers s = []"
    and ne: "evs \<noteq> []" and gaps: "\<forall>g \<in> set (tl evs). fst g < 1000"
    and q: "1000 \<le> q" and ok: "av \<noteq> No"
  shows "(\<forall>n. fired (run (burst (take n evs)) s) = fired s \<and>
              calls (run (burst (take n evs)) s) = calls s) \<and>
         armed (run (burst evs) s) \<and>
         length (fired (run (burst evs @ [Elapse q]) s)) = length (fired s) + 1 \<and>
         timers (run (burst evs @ [Elapse q]) s) = [] \<and>
         tasks (run (burst evs @ [Elapse q]) s) =
           AList.update (next_task s)
             (CallbackAwaitSession
                (AtCapabilities (type_value (run (burst evs) s)) (format_value (run (burst evs) s))
                   (length_value (run (burst evs) s)) None))
             (tasks s) \<and>
         calls (run (burst evs @
                  [Elapse q, Settle (next_task s) (Fulfil (Avail av)),
                   Elapse d1, Settle (next_task s) (Fulfil (Sess x)),
                   Elapse d2, Settle (next_task s) (Fulfil (Summary r))]) s) =
           calls s @
             [Capabilities,
              Create \<lparr>opt_type = type_value (run (burst evs) s),
                      opt_format = format_value (run (burst evs) s),
                      opt_length = length_value (run (burst evs) s), opt_monitor = None\<rparr>,
              Summarize x (input_value (run (burst evs) s)),
              Destroy x] \<and>
         length (fired (run (burst evs @
                  [Elapse q, Settle (next_task s) (Fulfil (Avail av)),
                   Elapse d1, Settle (next_task s) (Fulfil (Sess x)),
                   Elapse d2, Settle (next_task s) (Fulfil (Summary r))]) s)) =
           length (fired s) + 1 \<and>
         output_text (run (burst evs @
                  [Elapse q, Settle (next_task s) (Fulfil (Avail av)),
                   Elapse d1, Settle (next_task s) (Fulfil (Sess x)),
                   Elapse d2, Settle (next_task s) (Fulfil (Summary r))]) s) = r"
proof -
  let ?s1 = "run (burst evs) s"
  from burst_idle [OF l idle ne gaps] have a: "armed ?s1"
    and f: "fired ?s1 = fired s" "calls ?s1 = calls s" "tasks ?s1 = tasks s"
      "next_task ?s1 = next_task s"
    by simp_all
  have quiet: "\<forall>n. fired (run (burst (take n evs)) s) = fired s \<and>
                   calls (run (burst (take n evs)) s) = calls s"
    using burst_quiet [OF l idle gaps] by blast
  note fire = armed_fire_task [OF a q]
  from armed_cycle [OF a q ok, of d1 x d2 r] obtain i where
    "run [Elapse q, Settle (next_task ?s1) (Fulfil (Avail av)),
          Elapse d1, Settle (next_task ?s1) (Fulfil (Sess x)),
          Elapse d2, Settle (next_task ?s1) (Fulfil (Summary r))] ?s1 =
     ?s1\<lparr>clock := clock ?s1 + q + d1 + d2,
         timers := [],
         fired := fired ?s1 @ [i],
         output_text := r,
         calls := calls ?s1 @
           [Capabilities,
            Create \<lparr>opt_type = type_value ?s1, opt_format = format_value ?s1,
                    opt_length = length_value ?s1, opt_monitor = None\<rparr>,
            Summarize x (input_value ?s1),
            Destroy x],
         tasks := AList.delete (next_task ?s1) (tasks ?s1),
         next_task := next_task ?s1 + 1\<rparr>"
    by blast
  then have c: "run (burst evs @
                  [Elapse q, Settle (next_task s) (Fulfil (Avail av)),
                   Elapse d1, Settle (next_task s) (Fulfil (Sess x)),
                   Elapse d2, Settle (next_task s) (Fulfil (Summary r))]) s =
     ?s1\<lparr>clock := clock ?s1 + q + d1 + d2,
         timers := [],
         fired := fired s @ [i],
         output_text := r,
         calls := calls s @
           [Capabilities,
            Create \<lparr>opt_type = type_value ?s1, opt_format = format_value ?s1,
                    opt_length = length_value ?s1, opt_monitor = None\<rparr>,
            Summarize x (input_value ?s1),
            Destroy x],
         tasks := AList.delete (next_task s) (tasks s),
         next_task := next_task s + 1\<rparr>"
    by (simp only: run_append f)
  have e: "run (burst evs @ [Elapse q]) s = elapse q ?s1"
    by (simp add: run_append)
  show ?thesis
    using quiet a fire by (simp only: c e f) simp
qed


text \<open>
  An instance of C1: on the example page, "H" is typed, the length is set to \<open>long\<close> 300ms
  later and "Hello" is typed 999ms after that; the timer fires after a further 1000ms, and
  the host, after a download, gives session 3.
\<close>

theorem debounce_trailing_edge_witness:
  "listeners demo_ready = attached \<and> timers demo_ready = [] \<and>
   (300::nat) < 1000 \<and> (999::nat) < 1000 \<and> (1000::nat) \<le> 1000 \<and> AfterDownload \<noteq> No \<and>
   fired (run (burst [(0, Input (js ''H'')), (300, ChangeLength (js ''long'')),
                      (999, Input (js ''Hello''))]) demo_ready) = [] \<and>
   length (fired (run (burst [(0, Input (js ''H'')), (300, ChangeLength (js ''long'')),
                              (999, Input (js ''Hello''))] @ [Elapse 1000]) demo_ready)) = 1 \<and>
   calls (run (burst [(0, Input (js ''H'')), (300, ChangeLength (js ''long'')),
                      (999, Input (js ''Hello''))] @
               [Elapse 1000, Settle 1 (Fulfil (Avail AfterDownload)),
                Elapse 5000, Settle 1 (Fulfil (Sess 3)),
                Elapse 100, Settle 1 (Fulfil (Summary (js ''Hi'')))]) demo_ready) =
     [Capabilities, Capabilities,
      Create \<lparr>opt_type = js ''key-points'', opt_format = js ''plain-text'',
              opt_length = js ''long'', opt_monitor = None\<rparr>,
      Summarize 3 (js ''Hello''),
      Destroy 3]"
  using debounce_trailing_edge
          [of demo_ready
              "[(0, Input (js ''H'')), (300, ChangeLength (js ''long'')), (999, Input (js ''Hello''))]"
              1000 AfterDownload 5000 3 100 "js ''Hi''", THEN conjunct1, THEN spec, of 3]
        debounce_trailing_edge
          [of demo_ready
              "[(0, Input (js ''H'')), (300, ChangeLength (js ''long'')), (999, Input (js ''Hello''))]"
              1000 AfterDownload 5000 3 100 "js ''Hi''", THEN conjunct2]
  by (simp add: demo_ready_fields dispatch_values elapse_values)


subsection \<open>Counting the availability queries\<close>

lemma resume_capabilities:
  "count_list (calls (resume tid k x s)) Capabilities = count_list (calls s) Capabilities"
proof (cases k)
  case InitAwaitCapabilities
  show ?thesis
  proof (cases x)
    case (Fulfil v)
    then show ?thesis
      by (cases v) (simp_all add: InitAwaitCapabilities resume_defs)
  next
    case (Reject e)
    then show ?thesis by (simp add: InitAwaitCapabilities resume_defs)
  qed
next
  case (CallbackAwaitSession p)
  show ?thesis
  proof (cases x)
    case (Reject e)
    then show ?thesis by (simp add: CallbackAwaitSession resume_defs)
  next
    case (Fulfil v)
    then show ?thesis
      by (cases p; cases v)
         (simp_all add: CallbackAwaitSession resume_defs Let_def)
  qed
next
  case (CallbackAwaitSummarize session)
  show ?thesis
  proof (cases x)
    case (Fulfil v)
    then show ?thesis
      by (cases v) (simp_all add: CallbackAwaitSummarize resume_defs)
  next
    case (Reject e)
    then show ?thesis by (simp add: CallbackAwaitSummarize resume_defs)
  qed
qed

lemma count_list_replicate: "count_list (replicate n x) x = n"
  by (induction n) simp_all

lemma settle_fired: "fired (settle tid x s) = fired s"
  by (simp add: settle_def resume_fired split: option.splits)

lemma step_capabilities:
  "count_list (calls (step e s)) Capabilities + length (fired s) =
   count_list (calls s) Capabilities + length (fired (step e s))"
proof (cases e)
  case (User u)
  then show ?thesis by (simp add: user_frame)
next
  case (Elapse d)
  then show ?thesis
    by (simp add: elapse_eq fire_all_calls fire_all_fired count_list_replicate)
next
  case (Settle tid x)
  then show ?thesis
    by (simp add: settle_fired) (simp add: settle_def resume_capabilities split: option.splits)
qed

lemma run_capabilities:
  "count_list (calls (run es s)) Capabilities + length (fired s) =
   count_list (calls s) Capabilities + length (fired (run es s))"
proof (induction es arbitrary: s)
  case Nil
  show ?case by simp
next
  case (Cons e es)
  from Cons.IH [of "step e s"] step_capabilities [of e s] show ?case
    by simp
qed

lemma page_calls:
  "calls (page d) = (if summarizationApiAvailable d then [Capabilities] else [])"
  "fired (page d) = []"
  by (simp_all add: page_def initializeApplication_def loaded_fields spawn_def host_call_def)

text \<open>
  C9, as the code has it: the availability is queried once by \<open>initializeApplication\<close>,
  when the capability object is present, and once more at every firing of the debounce
  timer, by the re-check inside \<open>createSummarizationSession\<close>; there is no other query.
\<close>

theorem capabilities_queried_at_init_and_each_firing:
  "count_list (calls (run evs (page d))) Capabilities =
     (if summarizationApiAvailable d then 1 else 0) + length (fired (run evs (page d)))"
  using run_capabilities [of evs "page d"] by (simp add: page_calls)

text \<open>
  C9 as stated fails: on the example page one event and a quiet second bring a second
  availability query, after initialization has completed.
\<close>

theorem capabilities_queried_again_counterexample:
  "count_list
     (calls (run [Settle 0 (Fulfil (Avail Readily)), User (Input (js ''Hello world'')),
                  Elapse 1000] (page demo)))
     Capabilities = 2"
proof -
  let ?s = "step (User (Input (js ''Hello world''))) demo_ready"
  have r: "run [Settle 0 (Fulfil (Avail Readily)), User (Input (js ''Hello world'')),
                Elapse 1000] (page demo) = elapse 1000 ?s"
    by (simp add: demo_ready_def)
  have q: "(1000::nat) \<le> 1000" by simp
  from armed_fire_task(3) [OF demo_typed(1) q, of "js ''Hello world''"] demo_typed(3)
  show ?thesis
    by (simp only: r) simp
qed

text \<open>
  An instance of the amended C9: the same run makes two queries, one for initialization
  and one for its single firing.
\<close>

theorem capabilities_queried_at_init_and_each_firing_witness:
  "count_list
     (calls (run [Settle 0 (Fulfil (Avail Readily)), User (Input (js ''Hello world'')),
                  Elapse 1000] (page demo)))
     Capabilities =
   1 + length (fired (run [Settle 0 (Fulfil (Avail Readily)),
                           User (Input (js ''Hello world'')), Elapse 1000] (page demo)))"
  using capabilities_queried_at_init_and_each_firing
          [of "[Settle 0 (Fulfil (Avail Readily)), User (Input (js ''Hello world'')),
                Elapse 1000]" demo]
  by (simp add: summarizationApiAvailable_def demo_def)


subsection \<open>Summarizations in flight\<close>

lemma filter_update_le:
  "length (filter P (AList.update k v al)) \<le> length (filter P al) + 1"
  by (induction al) auto

lemma filter_update_existing:
  "map_of al k = Some v \<Longrightarrow> P (k, v) = P (k, v') \<Longrightarrow>
   length (filter P (AList.update k v' al)) = length (filter P al)"
  by (induction al) auto

lemma filter_delete_le:
  "length (filter P (AList.delete k al)) \<le> length (filter P al)"
  by (induction al) auto

lemma in_flight_fire: "in_flight (fire i s) \<le> in_flight s + 1"
  using filter_update_le [of "\<lambda>t. snd t \<noteq> InitAwaitCapabilities" "next_task s" _ "tasks s"]
  by (simp add: in_flight_def fire_eq)

lemma in_flight_resume:
  assumes "map_of (tasks s) tid = Some k"
  shows "in_flight (resume tid k x s) \<le> in_flight s"
proof (cases k)
  case InitAwaitCapabilities
  show ?thesis
  proof (cases x)
    case (Fulfil v)
    then show ?thesis
      by (cases v) (simp_all add: InitAwaitCapabilities resume_defs in_flight_def filter_delete_le)
  next
    case (Reject e)
    then show ?thesis
      by (simp add: InitAwaitCapabilities resume_defs in_flight_def filter_delete_le)
  qed
next
  case (CallbackAwaitSession p)
  note upd = filter_update_existing [OF assms [unfolded CallbackAwaitSession],
      where P = "\<lambda>t. snd t \<noteq> InitAwaitCapabilities"]
  show ?thesis
  proof (cases x)
    case (Reject e)
    then show ?thesis
      by (simp add: CallbackAwaitSession resume_defs in_flight_def filter_delete_le)
  next
    case (Fulfil v)
    then show ?thesis
      by (cases p; cases v)
         (simp_all add: CallbackAwaitSession resume_defs in_flight_def Let_def upd
            filter_delete_le)
  qed
next
  case (CallbackAwaitSummarize session)
  show ?thesis
  proof (cases x)
    case (Fulfil v)
    then show ?thesis
      by (cases v)
         (simp_all add: CallbackAwaitSummarize resume_defs in_flight_def filter_delete_le)
  next
    case (Reject e)
    then show ?thesis
      by (simp add: CallbackAwaitSummarize resume_defs in_flight_def filter_delete_le)
  qed
qed

lemma in_flight_settle: "in_flight (settle tid x s) \<le> in_flight s"
  by (simp add: settle_def in_flight_resume split: option.splits)

lemma sessions_held_le: "length (sessions_held s) \<le> in_flight s"
proof -
  have "length (concat (map (\<lambda>t. case snd t of CallbackAwaitSummarize x \<Rightarrow> [x] | _ \<Rightarrow> []) ts))
        \<le> length (filter (\<lambda>t. snd t \<noteq> InitAwaitCapabilities) ts)"
    for ts :: "(nat \<times> continuation) list"
    by (induction ts) (auto split: continuation.splits)
  then show ?thesis by (simp add: sessions_held_def in_flight_def)
qed

lemma in_flight_step:
  assumes t: "timer_inv s" and i: "in_flight s \<le> 1"
    and f: "fired (step e s) = fired s \<or> in_flight s = 0"
  shows "in_flight (step e s) \<le> 1"
proof (cases e)
  case (User u)
  with i show ?thesis by (simp add: in_flight_def user_frame)
next
  case (Settle tid x)
  with i in_flight_settle [of tid x s] show ?thesis by simp
next
  case (Elapse d)
  let ?due = "filter (\<lambda>t. snd t \<le> clock s + d) (timers s)"
  let ?s1 = "s\<lparr>clock := clock s + d, timers := filter (\<lambda>t. \<not> snd t \<le> clock s + d) (timers s)\<rparr>"
  from t have "length (timers s) \<le> 1"
    by (auto simp: timer_inv_def dest: arg_cong [where f = length])
  then have "length ?due \<le> 1"
    using length_filter_le [of "\<lambda>t. snd t \<le> clock s + d" "timers s"] by linarith
  then consider "?due = []" | t where "?due = [t]"
    by (cases ?due) auto
  then show ?thesis
  proof cases
    case 1
    with i show ?thesis by (simp add: Elapse elapse_eq in_flight_def)
  next
    case 2
    then have e: "elapse d s = fire (fst t) ?s1" by (simp add: elapse_eq)
    then have "fired (step e s) \<noteq> fired s" by (simp add: Elapse fire_eq)
    with f have "in_flight s = 0" by simp
    then have "in_flight ?s1 = 0" by (simp add: in_flight_def)
    with in_flight_fire [of "fst t" ?s1] show ?thesis by (simp add: Elapse e)
  qed
qed

lemma in_flight_run:
  assumes "page_inv s" "in_flight s \<le> 1" "fires_only_when_idle es s"
  shows "in_flight (run es s) \<le> 1"
  using assms
proof (induction es arbitrary: s)
  case Nil
  then show ?case by simp
next
  case (Cons e es)
  from Cons.prems have f: "fired (step e s) = fired s \<or> in_flight s = 0"
    and rest: "fires_only_when_idle es (step e s)"
    by simp_all
  from in_flight_step [OF page_inv_timers [OF Cons.prems(1)] Cons.prems(2) f]
  have "in_flight (step e s) \<le> 1" .
  from Cons.IH [OF page_inv_step [OF Cons.prems(1)] this rest] show ?case by simp
qed

lemma in_flight_page: "in_flight (page d) = 0"
  by (simp add: page_def initializeApplication_def loaded_fields spawn_def host_call_def
      in_flight_def)


lemma armed_to_summarize:
  assumes a: "armed s" and q: "1000 \<le> q" and ok: "av \<noteq> No"
  shows "\<exists>i. run [Elapse q, Settle (next_task s) (Fulfil (Avail av)),
                   Settle (next_task s) (Fulfil (Sess x))] s =
           s\<lparr>clock := clock s + q,
             timers := [],
             fired := fired s @ [i],
             output_text := js ''Generating summary...'',
             calls := calls s @
               [Capabilities,
                Create \<lparr>opt_type = type_value s, opt_format = format_value s,
                        opt_length = length_value s, opt_monitor = None\<rparr>,
                Summarize x (input_value s)],
             tasks := AList.update (next_task s) (CallbackAwaitSummarize x) (tasks s),
             next_task := next_task s + 1\<rparr>"
proof -
  from armed_fires [OF a q] obtain i where
    e: "elapse q s = fire i (s\<lparr>clock := clock s + q, timers := []\<rparr>)"
    by blast
  have "run [Elapse q, Settle (next_task s) (Fulfil (Avail av)),
             Settle (next_task s) (Fulfil (Sess x))] s =
           s\<lparr>clock := clock s + q,
             timers := [],
             fired := fired s @ [i],
             output_text := js ''Generating summary...'',
             calls := calls s @
               [Capabilities,
                Create \<lparr>opt_type = type_value s, opt_format = format_value s,
                        opt_length = length_value s, opt_monitor = None\<rparr>,
                Summarize x (input_value s)],
             tasks := AList.update (next_task s) (CallbackAwaitSummarize x) (tasks s),
             next_task := next_task s + 1\<rparr>"
    using ok
    by (simp add: e fire_eq settle_capabilities_ok settle_create update_conv')
  then show ?thesis by blast
qed

subsection \<open>Sessions outstanding\<close>


lemma outstanding_from_append:
  "outstanding_from live (cs @ cs') = outstanding_from (outstanding_from live cs) cs'"
  by (induction live cs rule: outstanding_from.induct) simp_all

lemma released_append:
  "released_before_create live (cs @ cs') =
     (released_before_create live cs \<and> released_before_create (outstanding_from live cs) cs')"
  by (induction live cs rule: released_before_create.induct) auto

lemma tasks_empty:
  assumes "\<not> initializing s" "in_flight s = 0"
  shows "tasks s = []"
proof -
  from assms(1) have "filter (\<lambda>t. snd t \<noteq> InitAwaitCapabilities) (tasks s) = tasks s"
    unfolding initializing_def filter_id_conv by force
  with assms(2) show ?thesis by (simp add: in_flight_def)
qed

lemma tasks_singleton:
  assumes "length (tasks s) \<le> 1" "map_of (tasks s) tid = Some k"
  shows "tasks s = [(tid, k)]"
proof -
  from assms(2) have "tasks s \<noteq> []" by auto
  with assms(1) obtain t where t: "tasks s = [t]"
    by (cases "tasks s") auto
  with assms(2) show ?thesis by (cases t) (auto split: if_splits)
qed


lemma sessions_inv_append:
  assumes "sessions_inv s"
  shows "outstanding (calls s @ cs) = outstanding_from (sessions_held s) cs"
    and "released_before_create [] (calls s @ cs) = released_before_create (sessions_held s) cs"
  using assms
  by (simp_all add: sessions_inv_def outstanding_def outstanding_from_append released_append)

lemma sessions_inv_settle:
  assumes inv: "sessions_inv s" and ok: "\<not> summarize_rejected (Settle tid x) s"
  shows "sessions_inv (settle tid x s)"
proof (cases "map_of (tasks s) tid")
  case None
  with inv show ?thesis by (simp add: settle_def)
next
  case (Some k)
  from inv have "length (tasks s) \<le> 1" by (simp add: sessions_inv_def)
  from tasks_singleton [OF this Some] have ts: "tasks s = [(tid, k)]" .
  note app = sessions_inv_append [OF inv]
  have held: "sessions_held s = (case k of CallbackAwaitSummarize y \<Rightarrow> [y] | _ \<Rightarrow> [])"
    by (simp add: sessions_held_def ts)
  show ?thesis
  proof (cases k)
    case InitAwaitCapabilities
    show ?thesis
    proof (cases x)
      case (Reject e)
      with inv ts InitAwaitCapabilities show ?thesis
        by (simp add: settle_def resume_defs sessions_inv_def sessions_held_def)
    next
      case (Fulfil v)
      with inv ts InitAwaitCapabilities show ?thesis
        by (cases v)
           (simp_all add: settle_def resume_defs sessions_inv_def sessions_held_def)
    qed
  next
    case (CallbackAwaitSession p)
    show ?thesis
    proof (cases x)
      case (Reject e)
      with inv ts CallbackAwaitSession show ?thesis
        by (simp add: settle_def resume_defs sessions_inv_def sessions_held_def)
    next
      case (Fulfil v)
      with inv ts CallbackAwaitSession held app [of "[c]" for c] show ?thesis
        by (cases p; cases v)
           (simp_all add: settle_def resume_defs sessions_inv_def sessions_held_def Let_def)
    qed
  next
    case (CallbackAwaitSummarize y)
    show ?thesis
    proof (cases x)
      case (Reject e)
      with ok Some CallbackAwaitSummarize show ?thesis by simp
    next
      case (Fulfil v)
      with inv ts CallbackAwaitSummarize held app [of "[Destroy y]"] show ?thesis
        by (cases v)
           (simp_all add: settle_def resume_defs sessions_inv_def sessions_held_def)
    qed
  qed
qed


lemma sessions_inv_elapse:
  assumes p: "page_inv s" and inv: "sessions_inv s"
    and f: "fired (elapse d s) = fired s \<or> in_flight s = 0"
  shows "sessions_inv (elapse d s)"
proof -
  let ?due = "filter (\<lambda>t. snd t \<le> clock s + d) (timers s)"
  let ?s1 = "s\<lparr>clock := clock s + d, timers := filter (\<lambda>t. \<not> snd t \<le> clock s + d) (timers s)\<rparr>"
  from page_inv_timers [OF p] have "length (timers s) \<le> 1"
    by (auto simp: timer_inv_def dest: arg_cong [where f = length])
  then have "length ?due \<le> 1"
    using length_filter_le [of "\<lambda>t. snd t \<le> clock s + d" "timers s"] by linarith
  then consider "?due = []" | t where "?due = [t]"
    by (cases ?due) auto
  then show ?thesis
  proof cases
    case 1
    with inv show ?thesis by (simp add: elapse_eq sessions_inv_def sessions_held_def)
  next
    case 2
    then have e: "elapse d s = fire (fst t) ?s1" by (simp add: elapse_eq)
    then have "fired (elapse d s) \<noteq> fired s" by (simp add: fire_eq)
    with f have idle: "in_flight s = 0" by simp
    from 2 have "timers s \<noteq> []" by auto
    with p have "\<not> initializing s" by (auto simp: page_inv_def)
    from tasks_empty [OF this idle] have ts: "tasks s = []" .
    from sessions_inv_append [OF inv, of "[Capabilities]"] inv ts show ?thesis
      by (simp add: e fire_eq sessions_inv_def sessions_held_def)
  qed
qed

lemma sessions_inv_step:
  assumes p: "page_inv s" and inv: "sessions_inv s"
    and f: "fired (step e s) = fired s \<or> in_flight s = 0"
    and ok: "\<not> summarize_rejected e s"
  shows "sessions_inv (step e s)"
proof (cases e)
  case (User u)
  with inv show ?thesis by (simp add: sessions_inv_def sessions_held_def user_frame)
next
  case (Elapse d)
  with sessions_inv_elapse [OF p inv, of d] f show ?thesis by simp
next
  case (Settle tid x)
  with sessions_inv_settle [OF inv, of tid x] ok show ?thesis by simp
qed

lemma sessions_inv_run:
  assumes "page_inv s" "sessions_inv s" "fires_only_when_idle es s"
    "summaries_not_rejected es s"
  shows "sessions_inv (run es s)"
  using assms
proof (induction es arbitrary: s)
  case Nil
  then show ?case by simp
next
  case (Cons e es)
  from Cons.prems have f: "fired (step e s) = fired s \<or> in_flight s = 0"
    and ok: "\<not> summarize_rejected e s"
    and rest: "fires_only_when_idle es (step e s)" "summaries_not_rejected es (step e s)"
    by simp_all
  from Cons.IH [OF page_inv_step [OF Cons.prems(1)]
      sessions_inv_step [OF Cons.prems(1,2) f ok] rest]
  show ?case by simp
qed

lemma sessions_inv_page: "sessions_inv (page d)"
  by (simp add: page_def initializeApplication_def loaded_fields spawn_def host_call_def
      sessions_inv_def sessions_held_def outstanding_def)

text \<open>
  C7, as the code has it: only the timer is single-flight; there is no in-flight guard. In
  every run of the page in which each firing of the debounce timer happens when no earlier
  summarization is still waiting for the host, and in which the host rejects no
  \<open>summarize\<close> call, at most one summarization is in flight, and every session has been
  destroyed before \<open>create\<close> is called again and before the next session comes into use:
  at most one session is ever outstanding.
\<close>

theorem no_overlap_when_fires_are_idle:
  assumes idle: "fires_only_when_idle evs (page d)"
    and ok: "summaries_not_rejected evs (page d)"
  shows "in_flight (run evs (page d)) \<le> 1 \<and>
         released_before_create [] (calls (run evs (page d))) \<and>
         length (outstanding (calls (run evs (page d)))) \<le> 1 \<and>
         outstanding (calls (run evs (page d))) = sessions_held (run evs (page d))"
proof -
  have "in_flight (page d) \<le> 1" by (simp add: in_flight_page)
  from in_flight_run [OF page_inv_page this idle]
  have i: "in_flight (run evs (page d)) \<le> 1" .
  from sessions_inv_run [OF page_inv_page sessions_inv_page idle ok]
  have s: "sessions_inv (run evs (page d))" .
  then have o: "outstanding (calls (run evs (page d))) = sessions_held (run evs (page d))"
    and r: "released_before_create [] (calls (run evs (page d)))"
    by (simp_all add: sessions_inv_def)
  from i sessions_held_le [of "run evs (page d)"] o r show ?thesis by simp
qed


text \<open>
  The example page while the host summarizes "a" on session 7: the text was typed, the
  timer fired a second later, the host reported \<open>readily\<close> and gave the session.
\<close>

lemma demo_summarizing:
  obtains i where
    "run [Elapse 1000, Settle 1 (Fulfil (Avail Readily)), Settle 1 (Fulfil (Sess 7))]
       (user (Input (js ''a'')) demo_ready) =
     user (Input (js ''a'')) demo_ready
       \<lparr>clock := clock (user (Input (js ''a'')) demo_ready) + 1000, timers := [], fired := [i],
        output_text := js ''Generating summary...'',
        calls := [Capabilities, Capabilities,
                  Create \<lparr>opt_type = js ''key-points'', opt_format = js ''plain-text'',
                          opt_length = js ''short'', opt_monitor = None\<rparr>,
                  Summarize 7 (js ''a'')],
        tasks := [(Suc 0, CallbackAwaitSummarize 7)],
        next_task := 2\<rparr>"
proof -
  note user.simps [simp del]
  let ?s1 = "user (Input (js ''a'')) demo_ready"
  have q: "(1000::nat) \<le> 1000" and ok: "Readily \<noteq> No" by simp_all
  note f1 = demo_typed [of "js ''a''", simplified]
  have v1: "input_value ?s1 = js ''a''" "type_value ?s1 = js ''key-points''"
    "format_value ?s1 = js ''plain-text''" "length_value ?s1 = js ''short''"
    by (simp_all add: user_values demo_ready_fields)
  from armed_to_summarize [OF f1(1) q ok, of 7] obtain i where
    A0: "run [Elapse 1000, Settle (next_task ?s1) (Fulfil (Avail Readily)),
              Settle (next_task ?s1) (Fulfil (Sess 7))] ?s1 =
         ?s1\<lparr>clock := clock ?s1 + 1000, timers := [], fired := fired ?s1 @ [i],
             output_text := js ''Generating summary...'',
             calls := calls ?s1 @ [Capabilities,
                       Create \<lparr>opt_type = type_value ?s1, opt_format = format_value ?s1,
                               opt_length = length_value ?s1, opt_monitor = None\<rparr>,
                       Summarize 7 (input_value ?s1)],
             tasks := AList.update (next_task ?s1) (CallbackAwaitSummarize 7) (tasks ?s1),
             next_task := next_task ?s1 + 1\<rparr>"
    by blast
  have "run [Elapse 1000, Settle 1 (Fulfil (Avail Readily)), Settle 1 (Fulfil (Sess 7))] ?s1 =
        ?s1\<lparr>clock := clock ?s1 + 1000, timers := [], fired := [i],
            output_text := js ''Generating summary...'',
            calls := [Capabilities, Capabilities,
                      Create \<lparr>opt_type = js ''key-points'', opt_format = js ''plain-text'',
                              opt_length = js ''short'', opt_monitor = None\<rparr>,
                      Summarize 7 (js ''a'')],
            tasks := [(Suc 0, CallbackAwaitSummarize 7)],
            next_task := 2\<rparr>"
    using A0 by (simp add: f1 v1)
  then show ?thesis by (rule that)
qed

text \<open>
  Why the amended C7 asks that no \<open>summarize\<close> call is rejected: when the host rejects
  it, the callback ends at line 85 and line 86 is never reached, so session 7 stays
  outstanding although no summarization is in flight any more.
\<close>

lemma rejected_summarize_leaves_session:
  "in_flight
     (run [Settle 0 (Fulfil (Avail Readily)), User (Input (js ''a'')), Elapse 1000,
           Settle 1 (Fulfil (Avail Readily)), Settle 1 (Fulfil (Sess 7)),
           Settle 1 (Reject (HostError (js ''too long'')))] (page demo)) = 0 \<and>
   outstanding
     (calls (run [Settle 0 (Fulfil (Avail Readily)), User (Input (js ''a'')), Elapse 1000,
                  Settle 1 (Fulfil (Avail Readily)), Settle 1 (Fulfil (Sess 7)),
                  Settle 1 (Reject (HostError (js ''too long'')))] (page demo))) = [7] \<and>
   unhandled
     (run [Settle 0 (Fulfil (Avail Readily)), User (Input (js ''a'')), Elapse 1000,
           Settle 1 (Fulfil (Avail Readily)), Settle 1 (Fulfil (Sess 7)),
           Settle 1 (Reject (HostError (js ''too long'')))] (page demo)) =
     [HostError (js ''too long'')]"
proof -
  note user.simps [simp del]
  let ?s1 = "user (Input (js ''a'')) demo_ready"
  note f1 = demo_typed [of "js ''a''", simplified]
  from demo_summarizing obtain i where
    A: "run [Elapse 1000, Settle 1 (Fulfil (Avail Readily)), Settle 1 (Fulfil (Sess 7))] ?s1 =
        ?s1\<lparr>clock := clock ?s1 + 1000, timers := [], fired := [i],
            output_text := js ''Generating summary...'',
            calls := [Capabilities, Capabilities,
                      Create \<lparr>opt_type = js ''key-points'', opt_format = js ''plain-text'',
                              opt_length = js ''short'', opt_monitor = None\<rparr>,
                      Summarize 7 (js ''a'')],
            tasks := [(Suc 0, CallbackAwaitSummarize 7)],
            next_task := 2\<rparr>" .
  have r: "run [Settle 0 (Fulfil (Avail Readily)), User (Input (js ''a'')), Elapse 1000,
           Settle 1 (Fulfil (Avail Readily)), Settle 1 (Fulfil (Sess 7)),
           Settle 1 (Reject (HostError (js ''too long'')))] (page demo) =
        settle (Suc 0) (Reject (HostError (js ''too long'')))
          (run [Elapse 1000, Settle 1 (Fulfil (Avail Readily)), Settle 1 (Fulfil (Sess 7))] ?s1)"
    by (simp add: demo_ready_def)
  show ?thesis
    unfolding r A
    by (simp add: settle_def reject_def finish_def in_flight_def outstanding_def f1)
qed


text \<open>
  C7 as stated fails: on the example page the host is still summarizing "a" on session 7
  when the user types again; a second later the timer fires, \<open>create\<close> is called again
  and session 8 comes into use while session 7 has not been destroyed.
\<close>

theorem overlapping_summarizations_counterexample:
  "in_flight
     (run [Settle 0 (Fulfil (Avail Readily)),
           User (Input (js ''a'')), Elapse 1000,
           Settle 1 (Fulfil (Avail Readily)), Settle 1 (Fulfil (Sess 7)),
           User (Input (js ''ab'')), Elapse 1000,
           Settle 2 (Fulfil (Avail Readily)), Settle 2 (Fulfil (Sess 8))] (page demo)) = 2 \<and>
   outstanding
     (calls
        (run [Settle 0 (Fulfil (Avail Readily)),
              User (Input (js ''a'')), Elapse 1000,
              Settle 1 (Fulfil (Avail Readily)), Settle 1 (Fulfil (Sess 7)),
              User (Input (js ''ab'')), Elapse 1000,
              Settle 2 (Fulfil (Avail Readily)), Settle 2 (Fulfil (Sess 8))] (page demo))) =
     [7, 8] \<and>
   \<not> released_before_create []
     (calls
        (run [Settle 0 (Fulfil (Avail Readily)),
              User (Input (js ''a'')), Elapse 1000,
              Settle 1 (Fulfil (Avail Readily)), Settle 1 (Fulfil (Sess 7)),
              User (Input (js ''ab'')), Elapse 1000,
              Settle 2 (Fulfil (Avail Readily)), Settle 2 (Fulfil (Sess 8))] (page demo))) \<and>
   calls
     (run [Settle 0 (Fulfil (Avail Readily)),
           User (Input (js ''a'')), Elapse 1000,
           Settle 1 (Fulfil (Avail Readily)), Settle 1 (Fulfil (Sess 7)),
           User (Input (js ''ab'')), Elapse 1000,
           Settle 2 (Fulfil (Avail Readily)), Settle 2 (Fulfil (Sess 8))] (page demo)) =
     [Capabilities,
      Capabilities,
      Create \<lparr>opt_type = js ''key-points'', opt_format = js ''plain-text'',
              opt_length = js ''short'', opt_monitor = None\<rparr>,
      Summarize 7 (js ''a''),
      Capabilities,
      Create \<lparr>opt_type = js ''key-points'', opt_format = js ''plain-text'',
              opt_length = js ''short'', opt_monitor = None\<rparr>,
      Summarize 8 (js ''ab'')]"
proof -
  note user.simps [simp del]
  let ?s1 = "user (Input (js ''a'')) demo_ready"
  have q: "(1000::nat) \<le> 1000" and ok: "Readily \<noteq> No" by simp_all
  note f1 = demo_typed [of "js ''a''", simplified]
  have v1: "input_value ?s1 = js ''a''" "type_value ?s1 = js ''key-points''"
    "format_value ?s1 = js ''plain-text''" "length_value ?s1 = js ''short''"
    by (simp_all add: user_values demo_ready_fields)
  from armedD [OF f1(1)] have l1: "listeners ?s1 = attached" by auto
  from demo_summarizing obtain i where
    A: "run [Elapse 1000, Settle 1 (Fulfil (Avail Readily)), Settle 1 (Fulfil (Sess 7))] ?s1 =
        ?s1\<lparr>clock := clock ?s1 + 1000, timers := [], fired := [i],
            output_text := js ''Generating summary...'',
            calls := [Capabilities, Capabilities,
                      Create \<lparr>opt_type = js ''key-points'', opt_format = js ''plain-text'',
                              opt_length = js ''short'', opt_monitor = None\<rparr>,
                      Summarize 7 (js ''a'')],
            tasks := [(Suc 0, CallbackAwaitSummarize 7)],
            next_task := 2\<rparr>"
    (is "_ = ?A") .
  have lA: "listeners ?A = attached" and tA: "timer_inv ?A"
    using l1 by (simp_all add: timer_inv_def)
  let ?s2 = "user (Input (js ''ab'')) ?A"
  note f2 = user_attached [OF lA tA, of "Input (js ''ab'')"]
  have a2: "armed ?s2" by (rule armed_user [OF lA tA])
  have v2: "input_value ?s2 = js ''ab''" "type_value ?s2 = js ''key-points''"
    "format_value ?s2 = js ''plain-text''" "length_value ?s2 = js ''short''"
    using v1 by (simp_all add: user_values)
  have n2: "next_task ?s2 = 2" "tasks ?s2 = [(Suc 0, CallbackAwaitSummarize 7)]"
    "calls ?s2 = [Capabilities, Capabilities,
                      Create \<lparr>opt_type = js ''key-points'', opt_format = js ''plain-text'',
                              opt_length = js ''short'', opt_monitor = None\<rparr>,
                      Summarize 7 (js ''a'')]"
    using f2(6,7,8) by simp_all
  from armed_to_summarize [OF a2 q ok, of 8] obtain j where
    B0: "run [Elapse 1000, Settle (next_task ?s2) (Fulfil (Avail Readily)),
             Settle (next_task ?s2) (Fulfil (Sess 8))] ?s2 =
        ?s2\<lparr>clock := clock ?s2 + 1000, timers := [], fired := fired ?s2 @ [j],
            output_text := js ''Generating summary...'',
            calls := calls ?s2 @ [Capabilities,
                      Create \<lparr>opt_type = type_value ?s2, opt_format = format_value ?s2,
                              opt_length = length_value ?s2, opt_monitor = None\<rparr>,
                      Summarize 8 (input_value ?s2)],
            tasks := AList.update (next_task ?s2) (CallbackAwaitSummarize 8) (tasks ?s2),
            next_task := next_task ?s2 + 1\<rparr>"
    by blast
  have B: "run [Elapse 1000, Settle 2 (Fulfil (Avail Readily)), Settle 2 (Fulfil (Sess 8))] ?s2 =
        ?s2\<lparr>clock := clock ?s2 + 1000, timers := [], fired := fired ?s2 @ [j],
            output_text := js ''Generating summary...'',
            calls := [Capabilities, Capabilities,
                      Create \<lparr>opt_type = js ''key-points'', opt_format = js ''plain-text'',
                              opt_length = js ''short'', opt_monitor = None\<rparr>,
                      Summarize 7 (js ''a''),
                      Capabilities,
                      Create \<lparr>opt_type = js ''key-points'', opt_format = js ''plain-text'',
                              opt_length = js ''short'', opt_monitor = None\<rparr>,
                      Summarize 8 (js ''ab'')],
            tasks := [(Suc 0, CallbackAwaitSummarize 7), (2, CallbackAwaitSummarize 8)],
            next_task := 3\<rparr>"
    using B0 by (simp add: n2 v2)
  have r: "run [Settle 0 (Fulfil (Avail Readily)),
           User (Input (js ''a'')), Elapse 1000,
           Settle 1 (Fulfil (Avail Readily)), Settle 1 (Fulfil (Sess 7)),
           User (Input (js ''ab'')), Elapse 1000,
           Settle 2 (Fulfil (Avail Readily)), Settle 2 (Fulfil (Sess 8))] (page demo) =
        run [Elapse 1000, Settle 2 (Fulfil (Avail Readily)), Settle 2 (Fulfil (Sess 8))]
          (user (Input (js ''ab''))
            (run [Elapse 1000, Settle 1 (Fulfil (Avail Readily)), Settle 1 (Fulfil (Sess 7))]
               ?s1))"
    by (simp add: demo_ready_def)
  show ?thesis
    unfolding r A B
    by (simp add: in_flight_def outstanding_def)
qed

text \<open>
  An instance of the amended C7: on the example page the user types again while the first
  summary is awaited, but the host delivers it before the timer fires a second time; the
  second session is created after the first has been destroyed.
\<close>

theorem no_overlap_when_fires_are_idle_witness:
  "fires_only_when_idle
     [Settle 0 (Fulfil (Avail Readily)),
      User (Input (js ''a'')), Elapse 1000,
      Settle 1 (Fulfil (Avail Readily)), Settle 1 (Fulfil (Sess 7)),
      User (Input (js ''ab'')), Settle 1 (Fulfil (Summary (js ''A''))),
      Elapse 1000,
      Settle 2 (Fulfil (Avail Readily)), Settle 2 (Fulfil (Sess 8))] (page demo) \<and>
   summaries_not_rejected
     [Settle 0 (Fulfil (Avail Readily)),
      User (Input (js ''a'')), Elapse 1000,
      Settle 1 (Fulfil (Avail Readily)), Settle 1 (Fulfil (Sess 7)),
      User (Input (js ''ab'')), Settle 1 (Fulfil (Summary (js ''A''))),
      Elapse 1000,
      Settle 2 (Fulfil (Avail Readily)), Settle 2 (Fulfil (Sess 8))] (page demo) \<and>
   in_flight
     (run [Settle 0 (Fulfil (Avail Readily)),
           User (Input (js ''a'')), Elapse 1000,
           Settle 1 (Fulfil (Avail Readily)), Settle 1 (Fulfil (Sess 7)),
           User (Input (js ''ab'')), Settle 1 (Fulfil (Summary (js ''A''))),
           Elapse 1000,
           Settle 2 (Fulfil (Avail Readily)), Settle 2 (Fulfil (Sess 8))] (page demo)) \<le> 1 \<and>
   released_before_create []
     (calls
        (run [Settle 0 (Fulfil (Avail Readily)),
              User (Input (js ''a'')), Elapse 1000,
              Settle 1 (Fulfil (Avail Readily)), Settle 1 (Fulfil (Sess 7)),
              User (Input (js ''ab'')), Settle 1 (Fulfil (Summary (js ''A''))),
              Elapse 1000,
              Settle 2 (Fulfil (Avail Readily)), Settle 2 (Fulfil (Sess 8))] (page demo))) \<and>
   length
     (outstanding
        (calls
           (run [Settle 0 (Fulfil (Avail Readily)),
                 User (Input (js ''a'')), Elapse 1000,
                 Settle 1 (Fulfil (Avail Readily)), Settle 1 (Fulfil (Sess 7)),
                 User (Input (js ''ab'')), Settle 1 (Fulfil (Summary (js ''A''))),
                 Elapse 1000,
                 Settle 2 (Fulfil (Avail Readily)), Settle 2 (Fulfil (Sess 8))] (page demo)))) \<le> 1"
proof -
  note user.simps [simp del]
  let ?s1 = "user (Input (js ''a'')) demo_ready"
  have q: "(1000::nat) \<le> 1000" by simp
  note f1 = demo_typed [of "js ''a''", simplified]
  note e1 = armed_fire_task [OF f1(1) q, unfolded f1]
  have i1: "in_flight ?s1 = 0" by (simp add: in_flight_def f1)
  let ?s2 = "settle (Suc 0) (Fulfil (Avail Readily)) (elapse 1000 ?s1)"
  have t2: "tasks ?s2 = [(Suc 0, CallbackAwaitSession AtCreate)]"
    by (simp add: settle_capabilities_ok [where t = "type_value ?s1" and f = "format_value ?s1"
          and l = "length_value ?s1"] e1)
  let ?s3 = "settle (Suc 0) (Fulfil (Sess 7)) ?s2"
  have t3: "tasks ?s3 = [(Suc 0, CallbackAwaitSummarize 7)]"
    by (simp add: settle_create t2)
  let ?s4 = "user (Input (js ''ab'')) ?s3"
  have t4: "tasks ?s4 = [(Suc 0, CallbackAwaitSummarize 7)]"
    by (simp add: user_frame t3)
  let ?s5 = "settle (Suc 0) (Fulfil (Summary (js ''A''))) ?s4"
  have t5: "tasks ?s5 = []"
    by (simp add: settle_summarize t4)
  have i5: "in_flight ?s5 = 0" by (simp add: in_flight_def t5)
  have f: "fires_only_when_idle
     [Settle 0 (Fulfil (Avail Readily)),
      User (Input (js ''a'')), Elapse 1000,
      Settle 1 (Fulfil (Avail Readily)), Settle 1 (Fulfil (Sess 7)),
      User (Input (js ''ab'')), Settle 1 (Fulfil (Summary (js ''A''))),
      Elapse 1000,
      Settle 2 (Fulfil (Avail Readily)), Settle 2 (Fulfil (Sess 8))] (page demo)"
    using i1 i5
    by (simp add: settle_fired user_frame in_flight_page demo_ready_def [simplified, symmetric])
  have n: "summaries_not_rejected
     [Settle 0 (Fulfil (Avail Readily)),
      User (Input (js ''a'')), Elapse 1000,
      Settle 1 (Fulfil (Avail Readily)), Settle 1 (Fulfil (Sess 7)),
      User (Input (js ''ab'')), Settle 1 (Fulfil (Summary (js ''A''))),
      Elapse 1000,
      Settle 2 (Fulfil (Avail Readily)), Settle 2 (Fulfil (Sess 8))] (page demo)"
    by simp
  from f n no_overlap_when_fires_are_idle [OF f n] show ?thesis by blast
qed

end
